theory Spec2Isabelle
  imports Main "HOL-Library.Word" "HOL-Library.Char_ord" "HOL-Library.List_Lexorder"
    "HOL-Library.AList"
begin

unbundle bit_operations_syntax

section \<open>Errors (github.com/pkg/errors)\<close>

text \<open>
  A Go \<open>error\<close> is an interface value that may be nil: \<open>error option\<close>, with
  \<open>None\<close> for nil. \<open>ErrNotExist\<close> is the sentinel that the resource client returns
  and \<open>upsertConfigMap\<close> compares with \<open>==\<close>; \<open>ErrorString\<close> is \<open>errors.New\<close>;
  \<open>WithMessage err msg\<close> is what \<open>errors.Wrap(err, msg)\<close> and \<open>errors.Wrapf\<close> build
  around a non-nil \<open>err\<close>.
\<close>

datatype error = ErrNotExist | ErrorString string | WithMessage error string

text \<open>\<open>errors.Wrap\<close> and \<open>errors.Wrapf\<close>: "If err is nil, Wrap returns nil."\<close>

fun errors_Wrap :: "error option \<Rightarrow> string \<Rightarrow> error option" where
  "errors_Wrap None message = None"
| "errors_Wrap (Some err) message = Some (WithMessage err message)"

text \<open>
  A call either returns its results or panics. \<open>ret\<close> is the result of a function that
  returns only an \<open>error\<close>.
\<close>

datatype 'a go = Returned 'a | Panicked

type_synonym ret = "error option go"

section \<open>Formatting and paths (fmt, strings, path/filepath)\<close>

text \<open>The verb \<open>%d\<close> of \<open>fmt\<close> on an \<open>int\<close>.\<close>

fun fmt_nat :: "nat \<Rightarrow> string" where
  "fmt_nat n = (if n < 10 then [char_of (48 + n)] else fmt_nat (n div 10) @ [char_of (48 + n mod 10)])"

definition fmt_d :: "int \<Rightarrow> string" where
  "fmt_d i = (if i < 0 then ''-'' @ fmt_nat (nat (- i)) else fmt_nat (nat i))"

text \<open>\<open>strings.Join(elems, sep)\<close> and \<open>strings.Split(s, "/")\<close>.\<close>

fun strings_Join :: "string list \<Rightarrow> string \<Rightarrow> string" where
  "strings_Join [] sep = ''''"
| "strings_Join [e] sep = e"
| "strings_Join (e # es) sep = e @ sep @ strings_Join es sep"

fun split_slash :: "string \<Rightarrow> string list" where
  "split_slash [] = ['''']"
| "split_slash (c # cs) =
     (if c = CHR ''/'' then [] # split_slash cs
      else (case split_slash cs of [] \<Rightarrow> [[c]] | e # es \<Rightarrow> (c # e) # es))"

text \<open>
  \<open>filepath.Clean\<close> on a slash-separated path: empty and \<open>.\<close> elements are dropped, a
  \<open>..\<close> element removes the element before it (it is kept at the front of a relative
  path and dropped at the root), the empty result is \<open>.\<close>. The stack holds the
  elements kept so far, last one first.
\<close>

fun clean_elem :: "bool \<Rightarrow> string list \<Rightarrow> string \<Rightarrow> string list" where
  "clean_elem rooted stack e =
     (if e = '''' \<or> e = ''.'' then stack
      else if e = ''..'' then
        (case stack of
           [] \<Rightarrow> (if rooted then [] else [''..''])
         | e' # below \<Rightarrow> (if e' = ''..'' then ''..'' # stack else below))
      else e # stack)"

definition filepath_Clean :: "string \<Rightarrow> string" where
  "filepath_Clean path =
     (if path = '''' then ''.''
      else
        (let rooted = (hd path = CHR ''/'');
             stack = foldl (clean_elem rooted) [] (split_slash path);
             out = (if rooted then ''/'' else '''') @ strings_Join (rev stack) ''/''
         in if out = '''' then ''.'' else out))"

text \<open>\<open>filepath.Join\<close>: the elements from the first non-empty one on, joined and cleaned.\<close>

fun filepath_Join :: "string list \<Rightarrow> string" where
  "filepath_Join [] = ''''"
| "filepath_Join (e # es) =
     (if e \<noteq> '''' then filepath_Clean (strings_Join (e # es) ''/'') else filepath_Join es)"

section \<open>The file store (afero.Fs) and the source store (ConfigMapLister)\<close>

text \<open>
  \<open>os.FileInfo\<close>, with the two methods \<open>Once\<close> calls. The file store is the interface
  \<open>afero.Fs\<close> over a store of type \<open>'s\<close>: the two reads return a value or an error, the
  two mutations return the store they leave behind and an error that may be nil.
\<close>

record FileInfo =
  fi_Name :: string
  fi_IsDir :: bool

record 's Fs =
  afero_ReadDir :: "'s \<Rightarrow> string \<Rightarrow> error + FileInfo list"
  afero_ReadFile :: "'s \<Rightarrow> string \<Rightarrow> error + string"
  afero_WriteFile :: "'s \<Rightarrow> string \<Rightarrow> string \<Rightarrow> 's \<times> error option"
  fs_Remove :: "'s \<Rightarrow> string \<Rightarrow> 's \<times> error option"

text \<open>The mutations issued on the file store, in order.\<close>

datatype fs_call = WriteFile string string | Remove string

text \<open>
  \<open>v1.ConfigMap\<close> with the fields \<open>Once\<close> reads. \<open>Data\<close> is a Go map: its entries are
  listed in the order in which this run's \<open>range\<close> visits them.
\<close>

record ObjectMeta =
  Name :: string
  Namespace :: string

record v1_ConfigMap =
  ObjectMeta :: ObjectMeta
  v1_Data :: "(string \<times> string) list"

type_synonym ConfigMapLister = "string \<Rightarrow> string \<Rightarrow> error + v1_ConfigMap list"

text \<open>
  \<open>K8s.List\<close>, the lister over a cluster client: the client's answer, or its error
  wrapped in a message that names the namespace. The client call of client-go is the
  parameter \<open>clientset\<close>.
\<close>

definition K8s_List :: "(string \<Rightarrow> string \<Rightarrow> error + v1_ConfigMap list) \<Rightarrow> ConfigMapLister" where
  "K8s_List clientset namespace sel =
     (case clientset namespace sel of
        Inl err \<Rightarrow> Inl (WithMessage err (''failed to list config maps for '' @ namespace))
      | Inr list \<Rightarrow> Inr list)"

datatype Logger = Logger

section \<open>The notification sink (net/http)\<close>

record Request =
  req_Method :: string
  req_URL :: string
  req_Body :: "string option"

text \<open>
  \<open>http.NewRequest\<close> and \<open>http.DefaultClient.Do\<close>; a response is read through its
  \<open>StatusCode\<close> only.
\<close>

record Http =
  http_NewRequest :: "string \<Rightarrow> string \<Rightarrow> string option \<Rightarrow> error + Request"
  http_Do :: "Request \<Rightarrow> error + int"

section \<open>The aggregator (aggregator.go)\<close>

record 's Aggregator =
  namespaces :: "string list"
  selector :: string
  lister :: "ConfigMapLister option"
  webhook :: string
  webhookMethod :: string
  outputDir :: string
  logger :: "Logger option"
  fs :: "'s Fs option"
  dryRun :: bool

type_synonym 's OptionsFunc = "'s Aggregator \<Rightarrow> error option \<times> 's Aggregator"

text \<open>
  The loop over the option functions of \<open>New\<close>: each one mutates the aggregator and may
  return an error, which stops the loop.
\<close>

fun run_options :: "'s OptionsFunc list \<Rightarrow> 's Aggregator \<Rightarrow> error option \<times> 's Aggregator" where
  "run_options [] a = (None, a)"
| "run_options (f # fs') a =
     (case f a of
        (Some err, a') \<Rightarrow> (Some err, a')
      | (None, a') \<Rightarrow> run_options fs' a')"

text \<open>
  \<open>New\<close> returns the pair (aggregator or nil, error or nil); \<open>initial\<close> is the
  struct it starts from. \<open>NewLogger\<close> is not among the source files and
  \<open>afero.NewOsFs\<close> is the library's: both are parameters.
\<close>

definition initial :: "'s Aggregator" where
  "initial = \<lparr>namespaces = [], selector = '''', lister = None, webhook = '''',
              webhookMethod = ''POST'', outputDir = ''.'', logger = None, fs = None,
              dryRun = False\<rparr>"

definition New :: "(Logger option \<times> error option) \<Rightarrow> 's Fs \<Rightarrow> 's OptionsFunc list
    \<Rightarrow> 's Aggregator option \<times> error option" where
  "New NewLogger NewOsFs options =
     (case run_options options initial of
        (Some err, a) \<Rightarrow> (None, errors_Wrap (Some err) ''failed to run options function'')
      | (None, a) \<Rightarrow>
          (case (if logger a = None
                 then (case NewLogger of
                         (l, Some err) \<Rightarrow> Inl (errors_Wrap (Some err) ''failed to create logger'')
                       | (l, None) \<Rightarrow> Inr (a\<lparr>logger := l\<rparr>))
                 else Inr a) of
             Inl e \<Rightarrow> (None, e)
           | Inr a \<Rightarrow>
               if lister a = None then (None, Some (ErrorString ''no config map lister was set''))
               else
                 (let a = (if length (namespaces a) = 0 then a\<lparr>namespaces := ['''']\<rparr> else a);
                      a = (if fs a = None then a\<lparr>fs := Some NewOsFs\<rparr> else a)
                  in (Some a, None))))"

definition SetNamespaces :: "string list \<Rightarrow> 's OptionsFunc" where
  "SetNamespaces ns = (\<lambda>a. (None, a\<lparr>namespaces := ns\<rparr>))"

definition SetLabelSelector :: "string \<Rightarrow> 's OptionsFunc" where
  "SetLabelSelector sel = (\<lambda>a. (None, a\<lparr>selector := sel\<rparr>))"

definition SetConfigMapLister :: "ConfigMapLister option \<Rightarrow> 's OptionsFunc" where
  "SetConfigMapLister l = (\<lambda>a. (None, a\<lparr>lister := l\<rparr>))"

definition SetLogger :: "Logger option \<Rightarrow> 's OptionsFunc" where
  "SetLogger l = (\<lambda>a. (None, a\<lparr>logger := l\<rparr>))"

text \<open>\<open>url.Parse\<close> is the library's: a parameter that returns the error or nil.\<close>

definition SetWebHook :: "(string \<Rightarrow> error option) \<Rightarrow> string \<Rightarrow> 's OptionsFunc" where
  "SetWebHook url_Parse hook =
     (\<lambda>a. case url_Parse hook of
             Some err \<Rightarrow> (errors_Wrap (Some err) ''failed to parse webhook'', a)
           | None \<Rightarrow> (None, a\<lparr>webhook := hook\<rparr>))"

definition SetOutputDir :: "string \<Rightarrow> 's OptionsFunc" where
  "SetOutputDir dir = (\<lambda>a. (None, a\<lparr>outputDir := dir\<rparr>))"

definition SetFS :: "'s Fs option \<Rightarrow> 's OptionsFunc" where
  "SetFS f = (\<lambda>a. (None, a\<lparr>fs := f\<rparr>))"

subsection \<open>One cycle: \<open>Once\<close>\<close>

text \<open>
  What \<open>Once\<close> holds while it runs: the store behind \<open>a.fs\<close>, the keys of the map
  \<open>existingFiles\<close>, the flag \<open>changed\<close>, and the mutations issued so far.
\<close>

record 's cycle =
  store :: 's
  existingFiles :: "string list"
  changed :: bool
  fs_calls :: "fs_call list"

text \<open>The first loop: \<open>existingFiles[f.Name()] = true\<close> for every entry that is no directory.\<close>

fun track_files :: "FileInfo list \<Rightarrow> string list \<Rightarrow> string list" where
  "track_files [] existing = existing"
| "track_files (f # files) existing =
     (if fi_IsDir f then track_files files existing
      else track_files files (List.insert (fi_Name f) existing))"

text \<open>
  The tail of the \<open>DATA\<close> loop body: \<open>changed = true\<close>, then the write. \<open>None\<close> lets
  the loop go on, \<open>Some r\<close> leaves \<open>Once\<close> with \<open>r\<close>.
\<close>

definition write_file :: "'s Fs \<Rightarrow> string \<Rightarrow> string \<Rightarrow> 's cycle \<Rightarrow> 's cycle \<times> ret option" where
  "write_file f name val c =
     (case afero_WriteFile f (store c) name val of
        (s, err) \<Rightarrow>
          (let c' = c\<lparr>store := s, changed := True, fs_calls := fs_calls c @ [WriteFile name val]\<rparr>
           in case err of
                Some e \<Rightarrow> (c', Some (Returned (errors_Wrap (Some e) (''failed to write file '' @ name))))
              | None \<Rightarrow> (c', None)))"

text \<open>The body of the \<open>DATA\<close> loop for one entry \<open>key, val\<close> of \<open>item.Data\<close>.\<close>

definition data_entry :: "'s Fs \<Rightarrow> Logger option \<Rightarrow> string \<Rightarrow> v1_ConfigMap \<Rightarrow> string \<times> string
    \<Rightarrow> 's cycle \<Rightarrow> 's cycle \<times> ret option" where
  "data_entry f lg dir item kv c =
     (let key = fst kv; val = snd kv;
          name = filepath_Join [dir, Namespace (ObjectMeta item) @ ''_'' @ Name (ObjectMeta item) @ ''_'' @ key]
      in if name \<in> set (existingFiles c) then
           (let c = c\<lparr>existingFiles := removeAll name (existingFiles c)\<rparr>
            in case afero_ReadFile f (store c) name of
                 Inl err \<Rightarrow> (c, Some (Returned (errors_Wrap (Some err) (''failed to read file '' @ name))))
               | Inr contents \<Rightarrow>
                   if contents = val then
                     (case lg of None \<Rightarrow> (c, Some Panicked) | Some l \<Rightarrow> (c, None))
                   else write_file f name val c)
         else write_file f name val c)"

fun data_loop :: "'s Fs \<Rightarrow> Logger option \<Rightarrow> string \<Rightarrow> v1_ConfigMap \<Rightarrow> (string \<times> string) list
    \<Rightarrow> 's cycle \<Rightarrow> 's cycle \<times> ret option" where
  "data_loop f lg dir item [] c = (c, None)"
| "data_loop f lg dir item (kv # kvs) c =
     (case data_entry f lg dir item kv c of
        (c', Some r) \<Rightarrow> (c', Some r)
      | (c', None) \<Rightarrow> data_loop f lg dir item kvs c')"

fun items_loop :: "'s Fs \<Rightarrow> Logger option \<Rightarrow> string \<Rightarrow> v1_ConfigMap list
    \<Rightarrow> 's cycle \<Rightarrow> 's cycle \<times> ret option" where
  "items_loop f lg dir [] c = (c, None)"
| "items_loop f lg dir (item # items) c =
     (case data_loop f lg dir item (v1_Data item) c of
        (c', Some r) \<Rightarrow> (c', Some r)
      | (c', None) \<Rightarrow> items_loop f lg dir items c')"

text \<open>
  The loop over \<open>a.namespaces\<close>. A failed query leaves \<open>Once\<close> with the error wrapped
  in a message whose \<open>%s\<close> is given the empty string.
\<close>

fun namespaces_loop :: "'s Aggregator \<Rightarrow> 's Fs \<Rightarrow> string list \<Rightarrow> 's cycle \<Rightarrow> 's cycle \<times> ret option" where
  "namespaces_loop a f [] c = (c, None)"
| "namespaces_loop a f (n # ns) c =
     (case lister a of
        None \<Rightarrow> (c, Some Panicked)
      | Some list \<Rightarrow>
          (case list n (selector a) of
             Inl err \<Rightarrow>
               (c, Some (Returned (errors_Wrap (Some err)
                     (''failed to list config maps for namespace '' @ ''''))))
           | Inr items \<Rightarrow>
               (case items_loop f (logger a) (outputDir a) items c of
                  (c', Some r) \<Rightarrow> (c', Some r)
                | (c', None) \<Rightarrow> namespaces_loop a f ns c')))"

text \<open>The last loop: every name left in \<open>existingFiles\<close> is removed, by that name.\<close>

fun remove_loop :: "'s Fs \<Rightarrow> string list \<Rightarrow> 's cycle \<Rightarrow> 's cycle \<times> ret option" where
  "remove_loop f [] c = (c, None)"
| "remove_loop f (k # ks) c =
     (case fs_Remove f (store c) k of
        (s, Some err) \<Rightarrow>
          (c\<lparr>store := s, fs_calls := fs_calls c @ [Remove k]\<rparr>,
           Some (Returned (errors_Wrap (Some err) (''failed to remove file '' @ k))))
      | (s, None) \<Rightarrow>
          remove_loop f ks (c\<lparr>store := s, changed := True, fs_calls := fs_calls c @ [Remove k]\<rparr>))"

text \<open>
  The webhook step. It returns the requests sent and what \<open>Once\<close> returns. After a
  request that was answered, \<open>err\<close> is nil, and it is this \<open>err\<close> that the status check
  wraps.
\<close>

definition notify :: "Http \<Rightarrow> 's Aggregator \<Rightarrow> bool \<Rightarrow> Request list \<times> ret" where
  "notify h a chg =
     (if chg \<and> webhook a \<noteq> '''' then
        (case http_NewRequest h (webhookMethod a) (webhook a) None of
           Inl err \<Rightarrow> ([], Returned (errors_Wrap (Some err) ''failed to create http request for webhook''))
         | Inr req \<Rightarrow>
             (case http_Do h req of
                Inl err \<Rightarrow> ([req], Returned (errors_Wrap (Some err) ''webhook request failed''))
              | Inr StatusCode \<Rightarrow>
                  if StatusCode \<ge> 400
                  then ([req], Returned (errors_Wrap None
                          (''webhook request receive unexpected status '' @ fmt_d StatusCode)))
                  else ([req], Returned None)))
      else ([], Returned None))"

text \<open>
  What one call of \<open>Once\<close> leaves: the file store, the flag \<open>changed\<close> as it stood when
  \<open>Once\<close> returned, the file mutations and the requests issued, and the return value.
\<close>

record 's outcome =
  out_store :: 's
  out_changed :: bool
  out_fs_calls :: "fs_call list"
  out_requests :: "Request list"
  out_ret :: ret

definition leave :: "'s cycle \<Rightarrow> Request list \<Rightarrow> ret \<Rightarrow> 's outcome" where
  "leave c reqs r =
     \<lparr>out_store = store c, out_changed = changed c, out_fs_calls = fs_calls c,
      out_requests = reqs, out_ret = r\<rparr>"

text \<open>
  \<open>Once\<close> up to the webhook step: the listing of the output directory and the three
  loops. \<open>Some r\<close> is the early return.
\<close>

definition synchronise :: "'s Aggregator \<Rightarrow> 's Fs \<Rightarrow> 's \<Rightarrow> 's cycle \<times> ret option" where
  "synchronise a f s =
     (let c0 = \<lparr>store = s, existingFiles = [], changed = False, fs_calls = []\<rparr>
      in case afero_ReadDir f s (outputDir a) of
           Inl err \<Rightarrow>
             (c0, Some (Returned (errors_Wrap (Some err) (''failed to list files in '' @ outputDir a))))
         | Inr files \<Rightarrow>
             (case namespaces_loop a f (namespaces a) (c0\<lparr>existingFiles := track_files files []\<rparr>) of
                (c1, Some r) \<Rightarrow> (c1, Some r)
              | (c1, None) \<Rightarrow> remove_loop f (existingFiles c1) c1))"

definition Once :: "Http \<Rightarrow> 's Aggregator \<Rightarrow> 's \<Rightarrow> 's outcome" where
  "Once h a s =
     (case fs a of
        None \<Rightarrow> leave \<lparr>store = s, existingFiles = [], changed = False, fs_calls = []\<rparr> [] Panicked
      | Some f \<Rightarrow>
          (case synchronise a f s of
             (c, Some r) \<Rightarrow> leave c [] r
           | (c, None) \<Rightarrow>
               (case notify h a (changed c) of
                  (reqs, r) \<Rightarrow> leave c reqs r)))"

section \<open>The resource-mode controller (package main)\<close>

text \<open>
  A Go \<open>map[string]string\<close>: nil, or allocated with its entries (in the order in which
  \<open>range\<close> visits them). Ranging over a nil map runs no iteration; assigning into it
  panics.
\<close>

datatype gomap = NilMap | GoMap "(string \<times> string) list"

definition range_map :: "gomap \<Rightarrow> (string \<times> string) list" where
  "range_map m = (case m of NilMap \<Rightarrow> [] | GoMap kvs \<Rightarrow> kvs)"

definition map_assign :: "gomap \<Rightarrow> string \<Rightarrow> string \<Rightarrow> gomap go" where
  "map_assign m k v =
     (case m of NilMap \<Rightarrow> Panicked | GoMap kvs \<Rightarrow> Returned (GoMap (AList.update k v kvs)))"

text \<open>
  Modelled from the spec: the declarations of \<open>ConfigMap\<close>, its \<open>Metadata\<close> and the
  client \<open>k8sClient\<close> are not among the source files. A collection is "identified by
  (partition, name); holds a mapping of string key to string value, plus metadata (labels,
  annotations, an opaque version token)"; the store offers "get(identity)", "create(Resource)",
  "update(Resource)" and "list(partition, labelFilter)". The records hold the fields, and the
  client the four methods, that the two functions of the controller use. The cluster behind
  the client has type \<open>'w\<close>.
\<close>

record Metadata =
  meta_Namespace :: string
  meta_Name :: string
  Annotations :: gomap
  Labels :: gomap
  ResourceVersion :: string

record ConfigMap =
  Data :: gomap
  Metadata :: Metadata

record 'w k8sClient =
  getConfigMaps :: "'w \<Rightarrow> string \<Rightarrow> string \<Rightarrow> error + ConfigMap list"
  getConfigMap :: "'w \<Rightarrow> string \<Rightarrow> string \<Rightarrow> error + ConfigMap"
  client_createConfigMap :: "'w \<Rightarrow> ConfigMap \<Rightarrow> 'w \<times> error option"
  client_updateConfigMap :: "'w \<Rightarrow> ConfigMap \<Rightarrow> 'w \<times> error option"

record 'w controller =
  client :: "'w k8sClient"
  targetNamespace :: string
  targetName :: string
  ctl_selector :: string
  ctl_namespaces :: "string list"

text \<open>The mutating calls issued on the client, in order.\<close>

datatype api_call = Create ConfigMap | Update ConfigMap

subsection \<open>\<open>hashConfigMap\<close> and \<open>compareConfigMaps\<close>\<close>

text \<open>
  \<open>printer.Fprintf(h, "%#v", cm.Data)\<close> with \<open>SortKeys\<close>: go-spew's formatter writes the
  type in parentheses, then \<open><nil>\<close> for a nil map, and otherwise \<open>map[\<close>, the entries
  in the order of their sorted keys, each as key, colon, value (strings are written as
  they are, unquoted), separated by one space, and \<open>]\<close>.
\<close>

definition spew_entry :: "string \<times> string \<Rightarrow> string" where
  "spew_entry kv = fst kv @ '':'' @ snd kv"

definition spew_Fprintf :: "gomap \<Rightarrow> string" where
  "spew_Fprintf m =
     ''(map[string]string)'' @
     (case m of
        NilMap \<Rightarrow> ''<nil>''
      | GoMap kvs \<Rightarrow> ''map['' @ strings_Join (map spew_entry (sort_key fst kvs)) '' '' @ '']'')"

text \<open>
  \<open>fnv.New64()\<close> is the 64-bit FNV-1 hash: for every byte, multiply by the prime, then
  xor the byte in. \<open>h.Sum(nil)\<close> is the hash as eight bytes, most significant first, and
  \<open>hex.EncodeToString\<close> writes two lower-case digits per byte.
\<close>

definition fnv64_step :: "64 word \<Rightarrow> char \<Rightarrow> 64 word" where
  "fnv64_step h c = (h * 1099511628211) XOR of_char c"

definition fnv64 :: "string \<Rightarrow> 64 word" where
  "fnv64 s = foldl fnv64_step 14695981039346656037 s"

definition hex_digit :: "64 word \<Rightarrow> char" where
  "hex_digit d = ''0123456789abcdef'' ! unat (d AND 15)"

definition hex_EncodeToString :: "64 word \<Rightarrow> string" where
  "hex_EncodeToString w = map (\<lambda>i. hex_digit (drop_bit (4 * (15 - i)) w)) [0..<16]"

definition hashConfigMap :: "ConfigMap \<Rightarrow> string" where
  "hashConfigMap cm = hex_EncodeToString (fnv64 (spew_Fprintf (Data cm)))"

definition compareConfigMaps :: "ConfigMap \<Rightarrow> ConfigMap \<Rightarrow> bool" where
  "compareConfigMaps a b = (hashConfigMap a = hashConfigMap b)"

subsection \<open>\<open>createConfigMap\<close>\<close>

text \<open>\<open>fmt.Sprintf("%s_%s_%s", namespace, name, k)\<close>.\<close>

definition aggregate_key :: "string \<Rightarrow> string \<Rightarrow> string \<Rightarrow> string" where
  "aggregate_key ns name k = ns @ ''_'' @ name @ ''_'' @ k"

text \<open>The innermost loop: \<open>data[name] = v\<close> for every entry of \<open>cm.Data\<close>.\<close>

fun merge_data :: "ConfigMap \<Rightarrow> (string \<times> string) list \<Rightarrow> (string \<times> string) list
    \<Rightarrow> (string \<times> string) list" where
  "merge_data cm [] data = data"
| "merge_data cm (kv # kvs) data =
     merge_data cm kvs
       (AList.update (aggregate_key (meta_Namespace (Metadata cm)) (meta_Name (Metadata cm)) (fst kv))
          (snd kv) data)"

text \<open>The loop \<open>ITEMS\<close>: a collection with the identity of the target is skipped.\<close>

fun merge_items :: "'w controller \<Rightarrow> ConfigMap list \<Rightarrow> (string \<times> string) list
    \<Rightarrow> (string \<times> string) list" where
  "merge_items c [] data = data"
| "merge_items c (cm # items) data =
     (if meta_Namespace (Metadata cm) = targetNamespace c \<and> meta_Name (Metadata cm) = targetName c
      then merge_items c items data
      else merge_items c items (merge_data cm (range_map (Data cm)) data))"

text \<open>
  The loop over \<open>c.namespaces\<close>. The query is made with the package variable \<open>selector\<close>
  (here \<open>sel\<close>); the message of a failed query names \<open>n\<close> and \<open>c.selector\<close>.
\<close>

fun merge_namespaces :: "'w controller \<Rightarrow> string \<Rightarrow> 'w \<Rightarrow> string list \<Rightarrow> (string \<times> string) list
    \<Rightarrow> error option + (string \<times> string) list" where
  "merge_namespaces c sel w [] data = Inr data"
| "merge_namespaces c sel w (n # ns) data =
     (case getConfigMaps (client c) w n sel of
        Inl err \<Rightarrow>
          Inl (errors_Wrap (Some err) (''failed to get config maps for '' @ n @ '' '' @ ctl_selector c))
      | Inr items \<Rightarrow> merge_namespaces c sel w ns (merge_items c items data))"

text \<open>
  \<open>createConfigMap\<close> returns the pair (resource or nil, error or nil), or panics where
  the annotation map of the new resource is nil. \<open>newConfigMap\<close> is not among the source
  files: it is the parameter \<open>new\<close>.
\<close>

definition createConfigMap :: "(string \<Rightarrow> string \<Rightarrow> ConfigMap) \<Rightarrow> 'w controller \<Rightarrow> string \<Rightarrow> 'w
    \<Rightarrow> (ConfigMap option \<times> error option) go" where
  "createConfigMap new c sel w =
     (case merge_namespaces c sel w (ctl_namespaces c) [] of
        Inl err \<Rightarrow> Returned (None, err)
      | Inr data \<Rightarrow>
          (let cm = new (targetNamespace c) (targetName c);
               cm = cm\<lparr>Data := GoMap data\<rparr>
           in case map_assign (Annotations (Metadata cm)) ''configmap-aggregator'' ''target'' of
                Panicked \<Rightarrow> Panicked
              | Returned anns \<Rightarrow>
                  Returned (Some (cm\<lparr>Metadata := (Metadata cm)\<lparr>Annotations := anns\<rparr>\<rparr>), None)))"

subsection \<open>\<open>upsertConfigMap\<close>\<close>

text \<open>\<open>for k, v := range from { to[k] = v }\<close>.\<close>

fun copy_entries :: "(string \<times> string) list \<Rightarrow> gomap \<Rightarrow> gomap go" where
  "copy_entries [] to = Returned to"
| "copy_entries (kv # kvs) to =
     (case map_assign to (fst kv) (snd kv) of
        Panicked \<Rightarrow> Panicked
      | Returned to' \<Rightarrow> copy_entries kvs to')"

text \<open>"copy labels, annotations, and version" from the existing resource onto the candidate.\<close>

definition copy_metadata :: "ConfigMap \<Rightarrow> ConfigMap \<Rightarrow> ConfigMap go" where
  "copy_metadata existing cm =
     (case copy_entries (range_map (Annotations (Metadata existing))) (Annotations (Metadata cm)) of
        Panicked \<Rightarrow> Panicked
      | Returned anns \<Rightarrow>
          (case copy_entries (range_map (Labels (Metadata existing))) (Labels (Metadata cm)) of
             Panicked \<Rightarrow> Panicked
           | Returned lbls \<Rightarrow>
               Returned (cm\<lparr>Metadata := (Metadata cm)\<lparr>Annotations := anns, Labels := lbls,
                                  ResourceVersion := ResourceVersion (Metadata existing)\<rparr>\<rparr>)))"

text \<open>What one call of \<open>upsertConfigMap\<close> leaves: the cluster, the calls issued, the return value.\<close>

record 'w upserted =
  up_world :: 'w
  up_calls :: "api_call list"
  up_ret :: ret

text \<open>\<open>upsertConfigMap\<close> as the file with \<open>process\<close> and \<open>compareConfigMaps\<close> has it.\<close>

definition upsertConfigMap :: "'w controller \<Rightarrow> ConfigMap \<Rightarrow> 'w \<Rightarrow> 'w upserted" where
  "upsertConfigMap c cm w =
     (case getConfigMap (client c) w (targetNamespace c) (targetName c) of
        Inl err \<Rightarrow>
          if err = ErrNotExist then
            (case client_createConfigMap (client c) w cm of
               (w', r) \<Rightarrow> \<lparr>up_world = w', up_calls = [Create cm], up_ret = Returned r\<rparr>)
          else
            \<lparr>up_world = w, up_calls = [],
             up_ret = Returned (errors_Wrap (Some err)
               (''failed to get config map '' @ targetNamespace c @ ''/'' @ targetName c))\<rparr>
      | Inr existing \<Rightarrow>
          (case copy_metadata existing cm of
             Panicked \<Rightarrow> \<lparr>up_world = w, up_calls = [], up_ret = Panicked\<rparr>
           | Returned cm' \<Rightarrow>
               if compareConfigMaps existing cm' then
                 \<lparr>up_world = w, up_calls = [], up_ret = Returned None\<rparr>
               else
                 (case client_updateConfigMap (client c) w cm' of
                    (w', r) \<Rightarrow> \<lparr>up_world = w', up_calls = [Update cm'], up_ret = Returned r\<rparr>)))"

text \<open>\<open>upsertConfigMap\<close> as \<open>main.go\<close> has it: no comparison stands before the update.\<close>

definition upsertConfigMap_main :: "'w controller \<Rightarrow> ConfigMap \<Rightarrow> 'w \<Rightarrow> 'w upserted" where
  "upsertConfigMap_main c cm w =
     (case getConfigMap (client c) w (targetNamespace c) (targetName c) of
        Inl err \<Rightarrow>
          if err = ErrNotExist then
            (case client_createConfigMap (client c) w cm of
               (w', r) \<Rightarrow> \<lparr>up_world = w', up_calls = [Create cm], up_ret = Returned r\<rparr>)
          else
            \<lparr>up_world = w, up_calls = [],
             up_ret = Returned (errors_Wrap (Some err)
               (''failed to get config map '' @ targetNamespace c @ ''/'' @ targetName c))\<rparr>
      | Inr existing \<Rightarrow>
          (case copy_metadata existing cm of
             Panicked \<Rightarrow> \<lparr>up_world = w, up_calls = [], up_ret = Panicked\<rparr>
           | Returned cm' \<Rightarrow>
               (case client_updateConfigMap (client c) w cm' of
                  (w', r) \<Rightarrow> \<lparr>up_world = w', up_calls = [Update cm'], up_ret = Returned r\<rparr>)))"

section \<open>An in-memory file store\<close>

text \<open>
  A store to run \<open>Once\<close> on, standing for the \<open>afero.NewMemMapFs()\<close> of the tests: the
  nodes by cleaned path. A directory lists the nodes whose parent (\<open>filepath.Dir\<close>) it is,
  by base name, sorted; a file is written where its parent is a directory and no directory
  has its path; a path that holds nothing cannot be removed.
\<close>

definition filepath_Dir :: "string \<Rightarrow> string" where
  "filepath_Dir path = filepath_Clean (rev (dropWhile (\<lambda>c. c \<noteq> CHR ''/'') (rev path)))"

definition filepath_Base :: "string \<Rightarrow> string" where
  "filepath_Base path =
     (if path = '''' then ''.''
      else (let b = last (split_slash (rev (dropWhile (\<lambda>c. c = CHR ''/'') (rev path))))
            in if b = '''' then ''/'' else b))"

datatype node = File string | Dir

type_synonym memfs = "(string \<times> node) list"

definition mem_ReadDir :: "memfs \<Rightarrow> string \<Rightarrow> error + FileInfo list" where
  "mem_ReadDir s dirname =
     (let d = filepath_Clean dirname
      in case map_of s d of
           Some Dir \<Rightarrow>
             Inr (sort_key fi_Name
                    (map (\<lambda>pn. \<lparr>fi_Name = filepath_Base (fst pn), fi_IsDir = (snd pn = Dir)\<rparr>)
                       (filter (\<lambda>pn. fst pn \<noteq> d \<and> filepath_Dir (fst pn) = d) s)))
         | Some (File b) \<Rightarrow> Inl (ErrorString ''not a directory'')
         | None \<Rightarrow> Inl (ErrorString ''file does not exist''))"

definition mem_ReadFile :: "memfs \<Rightarrow> string \<Rightarrow> error + string" where
  "mem_ReadFile s filename =
     (case map_of s (filepath_Clean filename) of
        Some (File b) \<Rightarrow> Inr b
      | Some Dir \<Rightarrow> Inl (ErrorString ''is a directory'')
      | None \<Rightarrow> Inl (ErrorString ''file does not exist''))"

definition mem_WriteFile :: "memfs \<Rightarrow> string \<Rightarrow> string \<Rightarrow> memfs \<times> error option" where
  "mem_WriteFile s filename data =
     (let p = filepath_Clean filename
      in if map_of s p = Some Dir then (s, Some (ErrorString ''is a directory''))
         else if map_of s (filepath_Dir p) \<noteq> Some Dir then (s, Some (ErrorString ''file does not exist''))
         else (AList.update p (File data) s, None))"

definition mem_Remove :: "memfs \<Rightarrow> string \<Rightarrow> memfs \<times> error option" where
  "mem_Remove s name =
     (let p = filepath_Clean name
      in case map_of s p of
           None \<Rightarrow> (s, Some (ErrorString ''file does not exist''))
         | Some (File b) \<Rightarrow> (AList.delete p s, None)
         | Some Dir \<Rightarrow>
             if list_ex (\<lambda>pn. fst pn \<noteq> p \<and> filepath_Dir (fst pn) = p) s
             then (s, Some (ErrorString ''directory not empty''))
             else (AList.delete p s, None))"

definition MemMapFs :: "memfs Fs" where
  "MemMapFs = \<lparr>afero_ReadDir = mem_ReadDir, afero_ReadFile = mem_ReadFile,
               afero_WriteFile = mem_WriteFile, fs_Remove = mem_Remove\<rparr>"

section \<open>The aggregate as the specification words it\<close>

text \<open>
  The specification speaks of the (collection, key, value) triples that the merger folds, in
  order, and of the collections whose identity is the target's. \<open>triples_of\<close> lists the
  triples of one collection under their aggregate keys, \<open>folded\<close> the triples of a list of
  collections without those of the target, and \<open>listed\<close> the collections that the queries
  for the partitions \<open>ns\<close> return, in order.
\<close>

definition is_target :: "'w controller \<Rightarrow> ConfigMap \<Rightarrow> bool" where
  "is_target c cm =
     (meta_Namespace (Metadata cm) = targetNamespace c \<and> meta_Name (Metadata cm) = targetName c)"

definition triples_of :: "ConfigMap \<Rightarrow> (string \<times> string) list" where
  "triples_of cm =
     map (\<lambda>kv. (aggregate_key (meta_Namespace (Metadata cm)) (meta_Name (Metadata cm)) (fst kv), snd kv))
       (range_map (Data cm))"

definition folded :: "'w controller \<Rightarrow> ConfigMap list \<Rightarrow> (string \<times> string) list" where
  "folded c items = concat (map triples_of (filter (\<lambda>cm. \<not> is_target c cm) items))"

definition listed :: "'w controller \<Rightarrow> string \<Rightarrow> 'w \<Rightarrow> string list \<Rightarrow> ConfigMap list" where
  "listed c sel w ns =
     concat (map (\<lambda>n. case getConfigMaps (client c) w n sel of Inl err \<Rightarrow> [] | Inr items \<Rightarrow> items) ns)"

text \<open>The client of \<open>c\<close> with the collections of the target's identity taken out of every answer.\<close>

definition without_target :: "'w controller \<Rightarrow> 'w controller" where
  "without_target c =
     c\<lparr>client := (client c)\<lparr>getConfigMaps :=
          (\<lambda>w n sel. case getConfigMaps (client c) w n sel of
                        Inl err \<Rightarrow> Inl err
                      | Inr items \<Rightarrow> Inr (filter (\<lambda>cm. \<not> is_target c cm) items))\<rparr>\<rparr>"

section \<open>Fixtures\<close>

text \<open>The lister and the collections of the tests (\<open>mockLister\<close>, \<open>mockConfigMaps\<close>).\<close>

definition mockConfigMaps :: "v1_ConfigMap list" where
  "mockConfigMaps =
     [\<lparr>ObjectMeta = \<lparr>Name = ''item1'', Namespace = ''default''\<rparr>,
       v1_Data = [(''foo.txt'', ''1234567890''), (''bar.txt'', ''0987654321'')]\<rparr>,
      \<lparr>ObjectMeta = \<lparr>Name = ''item2'', Namespace = ''default''\<rparr>,
       v1_Data = [(''baz.txt'', ''qwertyuiop''), (''abc.txt'', ''asdfghjkl'')]\<rparr>]"

definition mockLister :: ConfigMapLister where
  "mockLister = (\<lambda>n sel. Inr mockConfigMaps)"

text \<open>A lister whose query for the partition \<open>bad\<close> fails.\<close>

definition brokenLister :: "string \<Rightarrow> ConfigMapLister" where
  "brokenLister bad = (\<lambda>n sel. if n = bad then Inl (ErrorString ''boom'') else Inr mockConfigMaps)"

text \<open>
  An aggregator as \<open>New\<close> leaves it, over the in-memory store, for the partitions \<open>ns\<close>,
  the lister \<open>l\<close>, the output directory \<open>dir\<close> and the webhook \<open>hook\<close>.
\<close>

definition configured :: "string list \<Rightarrow> ConfigMapLister \<Rightarrow> string \<Rightarrow> string \<Rightarrow> memfs Aggregator" where
  "configured ns l dir hook =
     \<lparr>namespaces = ns, selector = '''', lister = Some l, webhook = hook, webhookMethod = ''POST'',
      outputDir = dir, logger = Some Logger, fs = Some MemMapFs, dryRun = False\<rparr>"

text \<open>A sink that accepts every request and answers it with the status \<open>code\<close>.\<close>

definition sink :: "int \<Rightarrow> Http" where
  "sink code =
     \<lparr>http_NewRequest = (\<lambda>method url body. Inr \<lparr>req_Method = method, req_URL = url, req_Body = body\<rparr>),
      http_Do = (\<lambda>req. Inr code)\<rparr>"

text \<open>
  A cluster that holds the destination resource or nothing, and its client. The source
  collections: two whose triples meet in the aggregate key \<open>a_b_c_d\<close>, and one with the
  identity of the target \<open>default/target\<close>. The query for the partition \<open>bad\<close> fails.
\<close>

definition collection :: "string \<Rightarrow> string \<Rightarrow> (string \<times> string) list \<Rightarrow> ConfigMap" where
  "collection ns name kvs =
     \<lparr>Data = GoMap kvs,
      Metadata = \<lparr>meta_Namespace = ns, meta_Name = name, Annotations = NilMap, Labels = NilMap,
                  ResourceVersion = ''1''\<rparr>\<rparr>"

definition sourceItems :: "ConfigMap list" where
  "sourceItems =
     [collection ''a'' ''b_c'' [(''d'', ''earlier'')],
      collection ''default'' ''target'' [(''own'', ''stale'')],
      collection ''a'' ''b'' [(''c_d'', ''later'')]]"

definition mockClient :: "string \<Rightarrow> ConfigMap option k8sClient" where
  "mockClient bad =
     \<lparr>getConfigMaps = (\<lambda>w n sel. if n = bad then Inl (ErrorString ''boom'') else Inr sourceItems),
      getConfigMap = (\<lambda>w ns name. case w of None \<Rightarrow> Inl ErrNotExist | Some cm \<Rightarrow> Inr cm),
      client_createConfigMap = (\<lambda>w cm. (Some cm, None)),
      client_updateConfigMap = (\<lambda>w cm. (Some cm, None))\<rparr>"

definition mockController :: "string list \<Rightarrow> ConfigMap option controller" where
  "mockController ns =
     \<lparr>client = mockClient ''bad'', targetNamespace = ''default'', targetName = ''target'',
      ctl_selector = ''app=x'', ctl_namespaces = ns\<rparr>"

text \<open>
  Modelled from the spec: \<open>newConfigMap\<close> is not among the source files. The candidate is
  built "stamping the destination's identity"; its label and annotation maps are allocated
  and empty.
\<close>

definition newConfigMap :: "string \<Rightarrow> string \<Rightarrow> ConfigMap" where
  "newConfigMap ns name =
     \<lparr>Data = NilMap,
      Metadata = \<lparr>meta_Namespace = ns, meta_Name = name, Annotations = GoMap [], Labels = GoMap [],
                  ResourceVersion = ''''\<rparr>\<rparr>"

text \<open>
  The destination \<open>default/target\<close> as the cluster stores it, with metadata set by others,
  and a candidate as \<open>createConfigMap\<close> builds it, each with the data \<open>d\<close>.
\<close>

definition destination :: "gomap \<Rightarrow> ConfigMap" where
  "destination d =
     \<lparr>Data = d,
      Metadata = \<lparr>meta_Namespace = ''default'', meta_Name = ''target'',
                  Annotations = GoMap [(''configmap-aggregator'', ''kept''), (''owner'', ''ops'')],
                  Labels = GoMap [(''team'', ''infra'')], ResourceVersion = ''41''\<rparr>\<rparr>"

definition candidate :: "gomap \<Rightarrow> ConfigMap" where
  "candidate d =
     \<lparr>Data = d,
      Metadata = \<lparr>meta_Namespace = ''default'', meta_Name = ''target'',
                  Annotations = GoMap [(''configmap-aggregator'', ''target'')],
                  Labels = GoMap [(''fresh'', ''yes'')], ResourceVersion = ''''\<rparr>\<rparr>"

section \<open>The file tree as the specification words it\<close>

text \<open>
  The destination is "a flat, single-level file tree": in the in-memory store, the working
  directory \<open>.\<close> and, under names without a slash, its files and sub-directories.
\<close>

definition name_ok :: "string \<Rightarrow> bool" where
  "name_ok p = (p \<noteq> [] \<and> CHR ''/'' \<notin> set p \<and> p \<noteq> ''.'')"

definition flat_store :: "memfs \<Rightarrow> bool" where
  "flat_store s =
     (map_of s ''.'' = Some Dir \<and> distinct (map fst s) \<and> list_all (\<lambda>pn. fst pn = ''.'' \<or> name_ok (fst pn)) s)"

text \<open>
  The file name of the entry \<open>key\<close> of a collection, the entries that the queries for the
  partitions \<open>ns\<close> list, in the order of the loops, and the (file name, value) pairs they
  produce: the aggregate set with its file names.
\<close>

definition file_name :: "v1_ConfigMap \<Rightarrow> string \<Rightarrow> string" where
  "file_name item key = Namespace (ObjectMeta item) @ ''_'' @ Name (ObjectMeta item) @ ''_'' @ key"

definition listed_entries :: "ConfigMapLister \<Rightarrow> string \<Rightarrow> string list \<Rightarrow> (v1_ConfigMap \<times> string \<times> string) list" where
  "listed_entries list sel ns =
     concat (map (\<lambda>n. case list n sel of
                         Inl err \<Rightarrow> []
                       | Inr items \<Rightarrow> concat (map (\<lambda>item. map (Pair item) (v1_Data item)) items)) ns)"

definition produced :: "ConfigMapLister \<Rightarrow> string \<Rightarrow> string list \<Rightarrow> (string \<times> string) list" where
  "produced list sel ns =
     map (\<lambda>e. (file_name (fst e) (fst (snd e)), snd (snd e))) (listed_entries list sel ns)"

text \<open>The three loops of \<open>Once\<close> as one loop over the listed entries.\<close>

fun entries_loop :: "'s Fs \<Rightarrow> Logger option \<Rightarrow> string \<Rightarrow> (v1_ConfigMap \<times> string \<times> string) list
    \<Rightarrow> 's cycle \<Rightarrow> 's cycle \<times> ret option" where
  "entries_loop f lg dir [] c = (c, None)"
| "entries_loop f lg dir (e # es) c =
     (case data_entry f lg dir (fst e) (snd e) c of
        (c', Some r) \<Rightarrow> (c', Some r)
      | (c', None) \<Rightarrow> entries_loop f lg dir es c')"

text \<open>The regular files of a store, with their bytes.\<close>

definition files :: "memfs \<Rightarrow> string \<Rightarrow> string option" where
  "files s p = (case map_of s p of Some (File b) \<Rightarrow> Some b | Some Dir \<Rightarrow> None | None \<Rightarrow> None)"

section \<open>The data merger: \<open>createConfigMap\<close>\<close>

text \<open>
  The map that the loops build holds, for every aggregate key, the value of the last triple
  folded under that key: \<open>map_of\<close> reads the first entry of a key, so it is taken of the
  triples in reverse.
\<close>

lemma map_of_merge_data:
  "map_of (merge_data cm kvs data) =
     map_of data ++ map_of (rev (map (\<lambda>kv. (aggregate_key (meta_Namespace (Metadata cm)) (meta_Name (Metadata cm)) (fst kv), snd kv)) kvs))"
proof (induction kvs arbitrary: data)
  case Nil
  show ?case by simp
next
  case (Cons kv kvs)
  show ?case
    by (simp add: Cons.IH update_conv' map_add_upd_left flip: map_add_assoc)
       (simp add: map_add_def fun_eq_iff split: option.splits)
qed

lemma map_of_merge_items:
  "map_of (merge_items c items data) = map_of data ++ map_of (rev (folded c items))"
proof (induction items arbitrary: data)
  case Nil
  show ?case by (simp add: folded_def)
next
  case (Cons cm items)
  show ?case
  proof (cases "is_target c cm")
    case True
    then show ?thesis using Cons.IH [of data] by (simp add: folded_def is_target_def)
  next
    case False
    then have "folded c (cm # items) = triples_of cm @ folded c items"
      by (simp add: folded_def)
    moreover from False
    have "merge_items c (cm # items) data = merge_items c items (merge_data cm (range_map (Data cm)) data)"
      by (auto simp: is_target_def)
    ultimately show ?thesis using Cons.IH [of "merge_data cm (range_map (Data cm)) data"]
      by (simp add: map_of_merge_data triples_of_def)
  qed
qed

lemma merge_namespaces_ok:
  "\<forall>n \<in> set ns. \<exists>items. getConfigMaps (client c) w n sel = Inr items \<Longrightarrow>
   \<exists>data'. merge_namespaces c sel w ns data = Inr data' \<and>
           map_of data' = map_of data ++ map_of (rev (folded c (listed c sel w ns)))"
proof (induction ns arbitrary: data)
  case Nil
  show ?case by (simp add: listed_def folded_def)
next
  case (Cons n ns)
  from Cons.prems obtain items where q: "getConfigMaps (client c) w n sel = Inr items"
    by auto
  from Cons.prems have rest: "\<forall>n \<in> set ns. \<exists>items. getConfigMaps (client c) w n sel = Inr items"
    by simp
  from Cons.IH [OF rest, of "merge_items c items data"]
  obtain data' where d: "merge_namespaces c sel w ns (merge_items c items data) = Inr data'"
    and m: "map_of data' = map_of (merge_items c items data) ++ map_of (rev (folded c (listed c sel w ns)))"
    by blast
  have "folded c (listed c sel w (n # ns)) = folded c items @ folded c (listed c sel w ns)"
    by (simp add: listed_def folded_def q)
  then show ?case using d m q by (simp add: map_of_merge_items)
qed

lemma map_of_rev_last:
  "k \<notin> fst ` set post \<Longrightarrow> map_of (rev (pre @ (k, v) # post)) k = Some v"
  by (simp add: map_add_def map_of_eq_None_iff [THEN iffD2] split: option.splits)

lemma split_at_delimiter:
  "d \<notin> set a \<Longrightarrow> d \<notin> set b \<Longrightarrow> a @ d # x = b @ d # y \<Longrightarrow> a = b \<and> x = y"
proof (induction a arbitrary: b)
  case Nil
  then show ?case by (cases b) auto
next
  case (Cons c a)
  then show ?case by (cases b) auto
qed

lemma aggregate_key_inj:
  assumes "CHR ''_'' \<notin> set ns" "CHR ''_'' \<notin> set name" "CHR ''_'' \<notin> set ns'" "CHR ''_'' \<notin> set name'"
    and eq: "aggregate_key ns name k = aggregate_key ns' name' k'"
  shows "ns = ns' \<and> name = name' \<and> k = k'"
proof -
  from eq have e1: "ns @ CHR ''_'' # (name @ CHR ''_'' # k) = ns' @ CHR ''_'' # (name' @ CHR ''_'' # k')"
    by (simp add: aggregate_key_def)
  from split_at_delimiter [OF assms(1) assms(3) e1]
  have n: "ns = ns'" and e2: "name @ CHR ''_'' # k = name' @ CHR ''_'' # k'" by simp_all
  from split_at_delimiter [OF assms(2) assms(4) e2] n show ?thesis by simp
qed

lemma createConfigMap_returns:
  assumes q: "\<forall>n \<in> set (ctl_namespaces c). \<exists>items. getConfigMaps (client c) w n sel = Inr items"
    and a: "Annotations (Metadata (new (targetNamespace c) (targetName c))) \<noteq> NilMap"
  shows "\<exists>cm. createConfigMap new c sel w = Returned (Some cm, None) \<and>
           map_of (range_map (Data cm)) = map_of (rev (folded c (listed c sel w (ctl_namespaces c))))"
proof -
  from merge_namespaces_ok [OF q, of "[]"]
  obtain data where d: "merge_namespaces c sel w (ctl_namespaces c) [] = Inr data"
    and m: "map_of data = map_of (rev (folded c (listed c sel w (ctl_namespaces c))))"
    by auto
  from a obtain anns where "Annotations (Metadata (new (targetNamespace c) (targetName c))) = GoMap anns"
    by (cases "Annotations (Metadata (new (targetNamespace c) (targetName c)))") auto
  then show ?thesis using d m
    by (simp add: createConfigMap_def map_assign_def range_map_def Let_def)
qed

text \<open>
  Claim C8. When every query succeeds (and the new resource has an annotation map to take
  the marker), \<open>createConfigMap\<close> returns a resource and no error, also where two triples
  produce the same aggregate key; the key then holds the value of the triple folded last.
  For partitions and names without the delimiter \<open>_\<close>, two aggregate keys are equal only
  if partition, name and key are.
\<close>

theorem later_triple_overwrites:
  "((\<forall>n \<in> set (ctl_namespaces c). \<exists>items. getConfigMaps (client c) w n sel = Inr items) \<and>
    Annotations (Metadata (new (targetNamespace c) (targetName c))) \<noteq> NilMap \<longrightarrow>
      (\<exists>cm. createConfigMap new c sel w = Returned (Some cm, None) \<and>
         (\<forall>pre k v post.
            folded c (listed c sel w (ctl_namespaces c)) = pre @ (k, v) # post \<and> k \<notin> fst ` set post
              \<longrightarrow> map_of (range_map (Data cm)) k = Some v))) \<and>
   (CHR ''_'' \<notin> set ns \<and> CHR ''_'' \<notin> set name \<and> CHR ''_'' \<notin> set ns' \<and> CHR ''_'' \<notin> set name' \<longrightarrow>
      (aggregate_key ns name k = aggregate_key ns' name' k') = (ns = ns' \<and> name = name' \<and> k = k'))"
proof (intro conjI impI)
  assume h: "(\<forall>n \<in> set (ctl_namespaces c). \<exists>items. getConfigMaps (client c) w n sel = Inr items) \<and>
    Annotations (Metadata (new (targetNamespace c) (targetName c))) \<noteq> NilMap"
  from createConfigMap_returns [of c w sel new] h
  obtain cm where r: "createConfigMap new c sel w = Returned (Some cm, None)"
    and m: "map_of (range_map (Data cm)) = map_of (rev (folded c (listed c sel w (ctl_namespaces c))))"
    by blast
  have "\<forall>pre k v post.
            folded c (listed c sel w (ctl_namespaces c)) = pre @ (k, v) # post \<and> k \<notin> fst ` set post
              \<longrightarrow> map_of (range_map (Data cm)) k = Some v"
  proof (intro allI impI)
    fix pre k v post
    assume "folded c (listed c sel w (ctl_namespaces c)) = pre @ (k, v) # post \<and> k \<notin> fst ` set post"
    with m show "map_of (range_map (Data cm)) k = Some v"
      by (metis map_of_rev_last)
  qed
  with r show "\<exists>cm. createConfigMap new c sel w = Returned (Some cm, None) \<and>
         (\<forall>pre k v post.
            folded c (listed c sel w (ctl_namespaces c)) = pre @ (k, v) # post \<and> k \<notin> fst ` set post
              \<longrightarrow> map_of (range_map (Data cm)) k = Some v)"
    by blast
next
  assume "CHR ''_'' \<notin> set ns \<and> CHR ''_'' \<notin> set name \<and> CHR ''_'' \<notin> set ns' \<and> CHR ''_'' \<notin> set name'"
  then show "(aggregate_key ns name k = aggregate_key ns' name' k') = (ns = ns' \<and> name = name' \<and> k = k')"
    using aggregate_key_inj [of ns name ns' name' k k'] by blast
qed

text \<open>
  The fixture: \<open>a/b_c\<close> with key \<open>d\<close> and \<open>a/b\<close> with key \<open>c_d\<close> meet in
  \<open>a_b_c_d\<close>; the second is folded later.
\<close>

lemma mock_folded:
  "folded (mockController ['''']) (listed (mockController ['''']) ''app=x'' None (ctl_namespaces (mockController [''''])))
     = [(''a_b_c_d'', ''earlier'')] @ (''a_b_c_d'', ''later'') # [] \<and> ''a_b_c_d'' \<notin> fst ` set ([] :: (string \<times> string) list)"
  by (simp add: folded_def listed_def mockController_def mockClient_def sourceItems_def collection_def
      is_target_def triples_of_def range_map_def aggregate_key_def)

theorem later_triple_overwrites_witness:
  "(\<exists>cm. createConfigMap newConfigMap (mockController ['''']) ''app=x'' None = Returned (Some cm, None) \<and>
         map_of (range_map (Data cm)) ''a_b_c_d'' = Some ''later'') \<and>
   ((aggregate_key ''default'' ''item1'' ''foo.txt'' = aggregate_key ''default'' ''item2'' ''foo.txt'')
      = (''default'' = ''default'' \<and> ''item1'' = ''item2'' \<and> ''foo.txt'' = ''foo.txt''))"
proof -
  note T = later_triple_overwrites [of "mockController ['''']" None "''app=x''" newConfigMap
      "''default''" "''item1''" "''default''" "''item2''" "''foo.txt''" "''foo.txt''"]
  have q: "\<forall>n \<in> set (ctl_namespaces (mockController [''''])).
      \<exists>items. getConfigMaps (client (mockController [''''])) None n ''app=x'' = Inr items"
    by (simp add: mockController_def mockClient_def)
  have a: "Annotations (Metadata (newConfigMap (targetNamespace (mockController ['''']))
      (targetName (mockController [''''])))) \<noteq> NilMap"
    by (simp add: newConfigMap_def)
  have d: "CHR ''_'' \<notin> set ''default'' \<and> CHR ''_'' \<notin> set ''item1'' \<and> CHR ''_'' \<notin> set ''default'' \<and> CHR ''_'' \<notin> set ''item2''"
    by simp
  from T [THEN conjunct1, THEN mp, OF conjI [OF q a]]
  obtain cm where r: "createConfigMap newConfigMap (mockController ['''']) ''app=x'' None = Returned (Some cm, None)"
    and l: "\<forall>pre k v post.
            folded (mockController ['''']) (listed (mockController ['''']) ''app=x'' None (ctl_namespaces (mockController ['''']))) = pre @ (k, v) # post \<and> k \<notin> fst ` set post
              \<longrightarrow> map_of (range_map (Data cm)) k = Some v"
    by (elim exE conjE)
  from l [rule_format, OF mock_folded] have "map_of (range_map (Data cm)) ''a_b_c_d'' = Some ''later''" .
  with r have first: "\<exists>cm. createConfigMap newConfigMap (mockController ['''']) ''app=x'' None = Returned (Some cm, None) \<and>
         map_of (range_map (Data cm)) ''a_b_c_d'' = Some ''later''"
    by (intro exI [of _ cm] conjI)
  from T [THEN conjunct2, THEN mp, OF d] first show ?thesis
    by (intro conjI)
qed

lemma merge_items_target_only:
  "targetNamespace c' = targetNamespace c \<Longrightarrow> targetName c' = targetName c \<Longrightarrow>
   merge_items c' items data = merge_items c items data"
  by (induction items arbitrary: data) simp_all

lemma merge_items_filter:
  "merge_items c (filter (\<lambda>cm. \<not> is_target c cm) items) data = merge_items c items data"
  by (induction items arbitrary: data) (simp_all add: is_target_def)

lemma merge_namespaces_without_target:
  "merge_namespaces (without_target c) sel w ns data = merge_namespaces c sel w ns data"
proof (induction ns arbitrary: data)
  case Nil
  show ?case by simp
next
  case (Cons n ns)
  have t: "targetNamespace (without_target c) = targetNamespace c"
    "targetName (without_target c) = targetName c"
    "ctl_selector (without_target c) = ctl_selector c"
    by (simp_all add: without_target_def)
  show ?case
  proof (cases "getConfigMaps (client c) w n sel")
    case (Inl err)
    then show ?thesis by (simp add: without_target_def)
  next
    case (Inr items)
    then have "getConfigMaps (client (without_target c)) w n sel = Inr (filter (\<lambda>cm. \<not> is_target c cm) items)"
      by (simp add: without_target_def)
    then show ?thesis using Inr Cons.IH
      by (simp add: merge_items_target_only [OF t(1) t(2)] merge_items_filter)
  qed
qed

lemma createConfigMap_without_target:
  "createConfigMap new (without_target c) sel w = createConfigMap new c sel w"
proof -
  have t: "targetNamespace (without_target c) = targetNamespace c"
    "targetName (without_target c) = targetName c"
    "ctl_namespaces (without_target c) = ctl_namespaces c"
    by (simp_all add: without_target_def)
  show ?thesis
    unfolding createConfigMap_def merge_namespaces_without_target t by (rule refl)
qed

lemma set_update_cases:
  "(a, b) \<in> set (AList.update k v al) \<Longrightarrow> (a, b) \<in> set al \<or> (a, b) = (k, v)"
  by (induction al) (auto split: if_splits)

lemma set_merge_data:
  "kv \<in> set (merge_data cm kvs data) \<Longrightarrow>
   kv \<in> set data \<or>
   kv \<in> set (map (\<lambda>kv. (aggregate_key (meta_Namespace (Metadata cm)) (meta_Name (Metadata cm)) (fst kv), snd kv)) kvs)"
proof (induction kvs arbitrary: data)
  case Nil
  then show ?case by simp
next
  case (Cons e kvs)
  from Cons.IH [OF Cons.prems [simplified]] show ?case
    using set_update_cases [of "fst kv" "snd kv"] by (cases kv) fastforce
qed

lemma set_merge_items:
  "kv \<in> set (merge_items c items data) \<Longrightarrow> kv \<in> set data \<or> kv \<in> set (folded c items)"
proof (induction items arbitrary: data)
  case Nil
  then show ?case by simp
next
  case (Cons cm items)
  show ?case
  proof (cases "is_target c cm")
    case True
    then have "merge_items c (cm # items) data = merge_items c items data"
      by (simp add: is_target_def)
    with Cons show ?thesis using True by (auto simp: folded_def)
  next
    case False
    then have "merge_items c (cm # items) data = merge_items c items (merge_data cm (range_map (Data cm)) data)"
      by (auto simp: is_target_def)
    with Cons.prems Cons.IH [of "merge_data cm (range_map (Data cm)) data"]
    have "kv \<in> set (merge_data cm (range_map (Data cm)) data) \<or> kv \<in> set (folded c items)"
      by simp
    with set_merge_data [of kv cm "range_map (Data cm)" data] False show ?thesis
      by (auto simp: folded_def triples_of_def)
  qed
qed

lemma set_merge_namespaces:
  "merge_namespaces c sel w ns data = Inr data' \<Longrightarrow> kv \<in> set data' \<Longrightarrow>
   kv \<in> set data \<or> kv \<in> set (folded c (listed c sel w ns))"
proof (induction ns arbitrary: data)
  case Nil
  then show ?case by simp
next
  case (Cons n ns)
  from Cons.prems(1) obtain items where q: "getConfigMaps (client c) w n sel = Inr items"
    by (cases "getConfigMaps (client c) w n sel") auto
  with Cons.prems(1) have r: "merge_namespaces c sel w ns (merge_items c items data) = Inr data'"
    by simp
  have f: "folded c (listed c sel w (n # ns)) = folded c items @ folded c (listed c sel w ns)"
    by (simp add: listed_def folded_def q)
  from Cons.IH [OF r Cons.prems(2)] set_merge_items [of kv c items data] show ?case
    unfolding f by auto
qed

lemma folded_source:
  assumes "(k, v) \<in> set (folded c items)"
  shows "\<exists>src \<in> set items. \<not> is_target c src \<and>
           (\<exists>key. (key, v) \<in> set (range_map (Data src)) \<and>
                  k = aggregate_key (meta_Namespace (Metadata src)) (meta_Name (Metadata src)) key)"
  using assms by (fastforce simp: folded_def triples_of_def)

text \<open>
  Claim C9. A collection whose (partition, name) equals the identity of the target is left
  out of the aggregate: every entry of the resource that \<open>createConfigMap\<close> returns is
  the triple of a listed collection that is not the target, and the result is the one that
  the same queries give once the collections of the target's identity are taken out of
  their answers.
\<close>

theorem target_excluded:
  "(createConfigMap new c sel w = Returned (Some cm, None) \<longrightarrow>
      (\<forall>k v. (k, v) \<in> set (range_map (Data cm)) \<longrightarrow>
         (\<exists>src \<in> set (listed c sel w (ctl_namespaces c)). \<not> is_target c src \<and>
            (\<exists>key. (key, v) \<in> set (range_map (Data src)) \<and>
                   k = aggregate_key (meta_Namespace (Metadata src)) (meta_Name (Metadata src)) key)))) \<and>
   createConfigMap new (without_target c) sel w = createConfigMap new c sel w"
proof (intro conjI impI allI)
  fix k v
  assume r: "createConfigMap new c sel w = Returned (Some cm, None)"
    and kv: "(k, v) \<in> set (range_map (Data cm))"
  from r obtain data where d: "merge_namespaces c sel w (ctl_namespaces c) [] = Inr data"
    and cm: "Data cm = GoMap data"
    by (auto simp: createConfigMap_def map_assign_def Let_def split: sum.splits gomap.splits)
  from kv cm have "(k, v) \<in> set data" by (simp add: range_map_def)
  from set_merge_namespaces [OF d this] have "(k, v) \<in> set (folded c (listed c sel w (ctl_namespaces c)))"
    by simp
  then show "\<exists>src \<in> set (listed c sel w (ctl_namespaces c)). \<not> is_target c src \<and>
            (\<exists>key. (key, v) \<in> set (range_map (Data src)) \<and>
                   k = aggregate_key (meta_Namespace (Metadata src)) (meta_Name (Metadata src)) key)"
    by (rule folded_source)
next
  show "createConfigMap new (without_target c) sel w = createConfigMap new c sel w"
    by (rule createConfigMap_without_target)
qed

text \<open>
  The fixture lists \<open>default/target\<close> with the entry \<open>own\<close> between the two other
  collections; the aggregate holds \<open>a_b_c_d\<close> only.
\<close>

lemma mock_created:
  "createConfigMap newConfigMap (mockController ['''']) ''app=x'' None =
     Returned (Some \<lparr>Data = GoMap [(''a_b_c_d'', ''later'')],
                     Metadata = \<lparr>meta_Namespace = ''default'', meta_Name = ''target'',
                                 Annotations = GoMap [(''configmap-aggregator'', ''target'')],
                                 Labels = GoMap [], ResourceVersion = ''''\<rparr>\<rparr>, None)"
  by (simp add: createConfigMap_def mockController_def mockClient_def sourceItems_def collection_def
      newConfigMap_def map_assign_def range_map_def aggregate_key_def)

theorem target_excluded_witness:
  "(\<exists>src \<in> set (listed (mockController ['''']) ''app=x'' None (ctl_namespaces (mockController ['''']))).
      \<not> is_target (mockController ['''']) src \<and>
      (\<exists>key. (key, ''later'') \<in> set (range_map (Data src)) \<and>
             ''a_b_c_d'' = aggregate_key (meta_Namespace (Metadata src)) (meta_Name (Metadata src)) key)) \<and>
   createConfigMap newConfigMap (without_target (mockController [''''])) ''app=x'' None =
     createConfigMap newConfigMap (mockController ['''']) ''app=x'' None"
proof -
  note T = target_excluded [of newConfigMap "mockController ['''']" "''app=x''" None
      "\<lparr>Data = GoMap [(''a_b_c_d'', ''later'')],
        Metadata = \<lparr>meta_Namespace = ''default'', meta_Name = ''target'',
                    Annotations = GoMap [(''configmap-aggregator'', ''target'')],
                    Labels = GoMap [], ResourceVersion = ''''\<rparr>\<rparr>"]
  have kv: "(''a_b_c_d'', ''later'') \<in> set (range_map (Data
      \<lparr>Data = GoMap [(''a_b_c_d'', ''later'')],
        Metadata = \<lparr>meta_Namespace = ''default'', meta_Name = ''target'',
                    Annotations = GoMap [(''configmap-aggregator'', ''target'')],
                    Labels = GoMap [], ResourceVersion = ''''\<rparr>\<rparr>))"
    by (simp add: range_map_def)
  from T [THEN conjunct1, THEN mp, OF mock_created, rule_format, OF kv] T [THEN conjunct2]
  show ?thesis by (intro conjI)
qed

section \<open>The target upserter: \<open>compareConfigMaps\<close> and \<open>upsertConfigMap\<close>\<close>

text \<open>
  With \<open>SortKeys\<close> the print of an allocated map depends on its entries only: two lists
  of entries with distinct keys and the same lookup function sort to the same list.
\<close>

lemma sort_key_fst_unique:
  assumes dx: "distinct (map fst xs)" and dy: "distinct (map fst ys)"
    and m: "map_of xs = map_of ys"
  shows "sort_key fst xs = sort_key fst ys"
proof (rule map_sorted_distinct_set_unique [where f = fst])
  from dx dy m have s: "set xs = set ys"
    by (simp add: map_of_inject_set)
  from dx have i: "inj_on fst (set xs)"
    by (simp add: distinct_map)
  from s i show "inj_on fst (set (sort_key fst xs) \<union> set (sort_key fst ys))"
    by simp
  show "sorted (map fst (sort_key fst xs))" "sorted (map fst (sort_key fst ys))"
    by simp_all
  from dx i show "distinct (map fst (sort_key fst xs))"
    by (simp add: distinct_map)
  from dy s i show "distinct (map fst (sort_key fst ys))"
    by (simp add: distinct_map)
  from s show "set (sort_key fst xs) = set (sort_key fst ys)"
    by simp
qed




lemma copy_entries_allocated:
  "\<exists>al'. copy_entries kvs (GoMap al) = Returned (GoMap al') \<and>
         map_of al' = map_of al ++ map_of (rev kvs)"
proof (induction kvs arbitrary: al)
  case Nil
  show ?case by simp
next
  case (Cons kv kvs)
  from Cons.IH [of "AList.update (fst kv) (snd kv) al"]
  obtain al' where c: "copy_entries kvs (GoMap (AList.update (fst kv) (snd kv) al)) = Returned (GoMap al')"
    and m: "map_of al' = map_of (AList.update (fst kv) (snd kv) al) ++ map_of (rev kvs)"
    by blast
  have "map_of al' = map_of al ++ map_of (rev (kv # kvs))"
    unfolding m by (cases kv) (simp add: update_conv' fun_eq_iff map_add_def split: option.splits)
  with c show ?case by (simp add: map_assign_def)
qed

lemma copy_metadata_allocated:
  assumes a: "Annotations (Metadata cm) = GoMap ca" and l: "Labels (Metadata cm) = GoMap cl"
  shows "\<exists>cm'. copy_metadata existing cm = Returned cm' \<and>
           Data cm' = Data cm \<and>
           ResourceVersion (Metadata cm') = ResourceVersion (Metadata existing) \<and>
           map_of (range_map (Annotations (Metadata cm'))) =
             map_of ca ++ map_of (rev (range_map (Annotations (Metadata existing)))) \<and>
           map_of (range_map (Labels (Metadata cm'))) =
             map_of cl ++ map_of (rev (range_map (Labels (Metadata existing))))"
proof -
  from copy_entries_allocated [of "range_map (Annotations (Metadata existing))" ca]
  obtain ca' where 1: "copy_entries (range_map (Annotations (Metadata existing))) (GoMap ca) = Returned (GoMap ca')"
    and 2: "map_of ca' = map_of ca ++ map_of (rev (range_map (Annotations (Metadata existing))))"
    by blast
  from copy_entries_allocated [of "range_map (Labels (Metadata existing))" cl]
  obtain cl' where 3: "copy_entries (range_map (Labels (Metadata existing))) (GoMap cl) = Returned (GoMap cl')"
    and 4: "map_of cl' = map_of cl ++ map_of (rev (range_map (Labels (Metadata existing))))"
    by blast
  from a l 1 2 3 4 show ?thesis
    by (simp add: copy_metadata_def range_map_def)
qed

lemma compare_data_only:
  "Data b' = Data b \<Longrightarrow> compareConfigMaps a b' = compareConfigMaps a b"
  by (simp add: compareConfigMaps_def hashConfigMap_def)

lemma compare_same_entries:
  assumes "Data a = GoMap xs" "Data b = GoMap ys" "distinct (map fst xs)" "distinct (map fst ys)"
    and "map_of xs = map_of ys"
  shows "compareConfigMaps a b"
  using assms sort_key_fst_unique [of xs ys]
  by (simp add: compareConfigMaps_def hashConfigMap_def spew_Fprintf_def)

text \<open>
  Claim C3, as amended. Where the client reports \<open>ErrNotExist\<close>, both versions of
  \<open>upsertConfigMap\<close> issue one call, the creation of the candidate as it is. Where the
  resource exists (and the candidate's label and annotation maps are allocated), the candidate
  is given the existing version token and, for every label and annotation key of the existing
  resource, the existing value; its other keys and its data stay. The version with
  \<open>compareConfigMaps\<close> then issues no call if the comparison of the existing resource with
  the candidate holds, and the update of that candidate otherwise; the version of
  \<open>main.go\<close> always issues the update.
\<close>

theorem upsert_branches:
  "(getConfigMap (client c) w (targetNamespace c) (targetName c) = Inl ErrNotExist \<longrightarrow>
      up_calls (upsertConfigMap c cm w) = [Create cm] \<and>
      up_calls (upsertConfigMap_main c cm w) = [Create cm]) \<and>
   (getConfigMap (client c) w (targetNamespace c) (targetName c) = Inr existing \<and>
    Annotations (Metadata cm) = GoMap ca \<and> Labels (Metadata cm) = GoMap cl \<and>
    distinct (map fst (range_map (Annotations (Metadata existing)))) \<and>
    distinct (map fst (range_map (Labels (Metadata existing)))) \<longrightarrow>
      (\<exists>cm'. up_calls (upsertConfigMap c cm w) = (if compareConfigMaps existing cm then [] else [Update cm']) \<and>
         up_calls (upsertConfigMap_main c cm w) = [Update cm'] \<and>
         Data cm' = Data cm \<and>
         ResourceVersion (Metadata cm') = ResourceVersion (Metadata existing) \<and>
         (\<forall>k. map_of (range_map (Annotations (Metadata cm'))) k =
                (case map_of (range_map (Annotations (Metadata existing))) k of
                   Some v \<Rightarrow> Some v | None \<Rightarrow> map_of ca k)) \<and>
         (\<forall>k. map_of (range_map (Labels (Metadata cm'))) k =
                (case map_of (range_map (Labels (Metadata existing))) k of
                   Some v \<Rightarrow> Some v | None \<Rightarrow> map_of cl k)))) \<and>
   (getConfigMap (client c) w (targetNamespace c) (targetName c) = Inr existing \<and>
    Annotations (Metadata cm) = GoMap ca \<and> Labels (Metadata cm) = GoMap cl \<and>
    Data existing = GoMap xs \<and> Data cm = GoMap ys \<and>
    distinct (map fst xs) \<and> distinct (map fst ys) \<and> map_of xs = map_of ys \<longrightarrow>
      up_calls (upsertConfigMap c cm w) = [])"
proof (intro conjI impI)
  assume "getConfigMap (client c) w (targetNamespace c) (targetName c) = Inl ErrNotExist"
  then show "up_calls (upsertConfigMap c cm w) = [Create cm]"
    and "up_calls (upsertConfigMap_main c cm w) = [Create cm]"
    by (simp_all add: upsertConfigMap_def upsertConfigMap_main_def split: prod.splits)
next
  assume h: "getConfigMap (client c) w (targetNamespace c) (targetName c) = Inr existing \<and>
    Annotations (Metadata cm) = GoMap ca \<and> Labels (Metadata cm) = GoMap cl \<and>
    distinct (map fst (range_map (Annotations (Metadata existing)))) \<and>
    distinct (map fst (range_map (Labels (Metadata existing))))"
  from copy_metadata_allocated [of cm ca cl existing] h
  obtain cm' where r: "copy_metadata existing cm = Returned cm'"
    and d: "Data cm' = Data cm"
    and v: "ResourceVersion (Metadata cm') = ResourceVersion (Metadata existing)"
    and a: "map_of (range_map (Annotations (Metadata cm'))) =
             map_of ca ++ map_of (rev (range_map (Annotations (Metadata existing))))"
    and l: "map_of (range_map (Labels (Metadata cm'))) =
             map_of cl ++ map_of (rev (range_map (Labels (Metadata existing))))"
    by blast
  from h have ra: "map_of (rev (range_map (Annotations (Metadata existing)))) =
      map_of (range_map (Annotations (Metadata existing)))"
    and rl: "map_of (rev (range_map (Labels (Metadata existing)))) =
      map_of (range_map (Labels (Metadata existing)))"
    by (simp_all add: map_of_inject_set rev_map [symmetric])
  have u: "up_calls (upsertConfigMap c cm w) = (if compareConfigMaps existing cm then [] else [Update cm'])"
    using h r compare_data_only [OF d, of existing]
    by (simp add: upsertConfigMap_def split: prod.splits)
  have m: "up_calls (upsertConfigMap_main c cm w) = [Update cm']"
    using h r by (simp add: upsertConfigMap_main_def split: prod.splits)
  have ak: "\<forall>k. map_of (range_map (Annotations (Metadata cm'))) k =
                (case map_of (range_map (Annotations (Metadata existing))) k of
                   Some v \<Rightarrow> Some v | None \<Rightarrow> map_of ca k)"
    unfolding a ra by (simp add: map_add_def)
  have lk: "\<forall>k. map_of (range_map (Labels (Metadata cm'))) k =
                (case map_of (range_map (Labels (Metadata existing))) k of
                   Some v \<Rightarrow> Some v | None \<Rightarrow> map_of cl k)"
    unfolding l rl by (simp add: map_add_def)
  from u m d v ak lk
  show "\<exists>cm'. up_calls (upsertConfigMap c cm w) = (if compareConfigMaps existing cm then [] else [Update cm']) \<and>
         up_calls (upsertConfigMap_main c cm w) = [Update cm'] \<and>
         Data cm' = Data cm \<and>
         ResourceVersion (Metadata cm') = ResourceVersion (Metadata existing) \<and>
         (\<forall>k. map_of (range_map (Annotations (Metadata cm'))) k =
                (case map_of (range_map (Annotations (Metadata existing))) k of
                   Some v \<Rightarrow> Some v | None \<Rightarrow> map_of ca k)) \<and>
         (\<forall>k. map_of (range_map (Labels (Metadata cm'))) k =
                (case map_of (range_map (Labels (Metadata existing))) k of
                   Some v \<Rightarrow> Some v | None \<Rightarrow> map_of cl k))"
    by (intro exI [of _ cm'] conjI)
next
  assume h: "getConfigMap (client c) w (targetNamespace c) (targetName c) = Inr existing \<and>
    Annotations (Metadata cm) = GoMap ca \<and> Labels (Metadata cm) = GoMap cl \<and>
    Data existing = GoMap xs \<and> Data cm = GoMap ys \<and>
    distinct (map fst xs) \<and> distinct (map fst ys) \<and> map_of xs = map_of ys"
  from copy_metadata_allocated [of cm ca cl existing] h
  obtain cm' where r: "copy_metadata existing cm = Returned cm'" and d: "Data cm' = Data cm"
    by blast
  from h d have "compareConfigMaps existing cm'"
    by (intro compare_same_entries [of existing xs cm' ys]) simp_all
  with h r show "up_calls (upsertConfigMap c cm w) = []"
    by (simp add: upsertConfigMap_def)
qed

text \<open>
  Claim C3 as stated fails twice. The \<open>upsertConfigMap\<close> of \<open>main.go\<close> updates a
  destination whose data is identical to the candidate's. The version with
  \<open>compareConfigMaps\<close> issues no update for a destination whose one value
  \<open>1 a_b_d:2\<close> prints like the candidate's two entries.
\<close>

theorem upsert_counterexample:
  "up_calls (upsertConfigMap_main (mockController ['''']) (candidate (GoMap [(''a_b_c'', ''1'')]))
      (Some (destination (GoMap [(''a_b_c'', ''1'')])))) =
     [Update \<lparr>Data = GoMap [(''a_b_c'', ''1'')],
              Metadata = \<lparr>meta_Namespace = ''default'', meta_Name = ''target'',
                Annotations = GoMap [(''configmap-aggregator'', ''kept''), (''owner'', ''ops'')],
                Labels = GoMap [(''fresh'', ''yes''), (''team'', ''infra'')], ResourceVersion = ''41''\<rparr>\<rparr>] \<and>
   map_of [(''a_b_c'', ''1''), (''a_b_d'', ''2'')] \<noteq> map_of [(''a_b_c'', ''1 a_b_d:2'')] \<and>
   up_calls (upsertConfigMap (mockController ['''']) (candidate (GoMap [(''a_b_c'', ''1''), (''a_b_d'', ''2'')]))
      (Some (destination (GoMap [(''a_b_c'', ''1 a_b_d:2'')])))) = []"
proof -
  have "map_of [(''a_b_c'', ''1''), (''a_b_d'', ''2'')] ''a_b_d'' \<noteq> map_of [(''a_b_c'', ''1 a_b_d:2'')] ''a_b_d''"
    by simp
  then have "map_of [(''a_b_c'', ''1''), (''a_b_d'', ''2'')] \<noteq> map_of [(''a_b_c'', ''1 a_b_d:2'')]"
    by metis
  moreover have "up_calls (upsertConfigMap_main (mockController ['''']) (candidate (GoMap [(''a_b_c'', ''1'')]))
      (Some (destination (GoMap [(''a_b_c'', ''1'')])))) =
     [Update \<lparr>Data = GoMap [(''a_b_c'', ''1'')],
              Metadata = \<lparr>meta_Namespace = ''default'', meta_Name = ''target'',
                Annotations = GoMap [(''configmap-aggregator'', ''kept''), (''owner'', ''ops'')],
                Labels = GoMap [(''fresh'', ''yes''), (''team'', ''infra'')], ResourceVersion = ''41''\<rparr>\<rparr>]"
    by code_simp
  moreover have "up_calls (upsertConfigMap (mockController ['''']) (candidate (GoMap [(''a_b_c'', ''1''), (''a_b_d'', ''2'')]))
      (Some (destination (GoMap [(''a_b_c'', ''1 a_b_d:2'')])))) = []"
    by code_simp
  ultimately show ?thesis by (intro conjI)
qed

text \<open>
  The fixtures: an empty cluster; then a destination whose marker annotation an operator
  changed to \<open>kept\<close>, with the version \<open>41\<close>, against a candidate with a label of its own.
\<close>

theorem upsert_branches_witness:
  "(up_calls (upsertConfigMap (mockController ['''']) (candidate (GoMap [(''k'', ''new'')])) None) =
      [Create (candidate (GoMap [(''k'', ''new'')]))] \<and>
    up_calls (upsertConfigMap_main (mockController ['''']) (candidate (GoMap [(''k'', ''new'')])) None) =
      [Create (candidate (GoMap [(''k'', ''new'')]))]) \<and>
   (\<exists>cm'. up_calls (upsertConfigMap (mockController ['''']) (candidate (GoMap [(''k'', ''new'')]))
              (Some (destination (GoMap [(''k'', ''old'')])))) = [Update cm'] \<and>
          up_calls (upsertConfigMap_main (mockController ['''']) (candidate (GoMap [(''k'', ''new'')]))
              (Some (destination (GoMap [(''k'', ''old'')])))) = [Update cm'] \<and>
          Data cm' = GoMap [(''k'', ''new'')] \<and>
          ResourceVersion (Metadata cm') = ''41'' \<and>
          map_of (range_map (Annotations (Metadata cm'))) ''configmap-aggregator'' = Some ''kept'' \<and>
          map_of (range_map (Labels (Metadata cm'))) ''fresh'' = Some ''yes'') \<and>
   up_calls (upsertConfigMap (mockController ['''']) (candidate (GoMap [(''k1'', ''v1''), (''k2'', ''v2'')]))
      (Some (destination (GoMap [(''k2'', ''v2''), (''k1'', ''v1'')])))) = []"
proof -
  let ?same = "destination (GoMap [(''k2'', ''v2''), (''k1'', ''v1'')])"
  let ?again = "candidate (GoMap [(''k1'', ''v1''), (''k2'', ''v2'')])"
  have same: "getConfigMap (client (mockController [''''])) (Some ?same)
        (targetNamespace (mockController [''''])) (targetName (mockController [''''])) = Inr ?same \<and>
      Annotations (Metadata ?again) = GoMap [(''configmap-aggregator'', ''target'')] \<and>
      Labels (Metadata ?again) = GoMap [(''fresh'', ''yes'')] \<and>
      Data ?same = GoMap [(''k2'', ''v2''), (''k1'', ''v1'')] \<and>
      Data ?again = GoMap [(''k1'', ''v1''), (''k2'', ''v2'')] \<and>
      distinct (map fst [(''k2'', ''v2''), (''k1'', ''v1'')]) \<and>
      distinct (map fst [(''k1'', ''v1''), (''k2'', ''v2'')]) \<and>
      map_of [(''k2'', ''v2''), (''k1'', ''v1'')] = map_of [(''k1'', ''v1''), (''k2'', ''v2'')]"
    by (auto simp: mockController_def mockClient_def candidate_def destination_def)
  from upsert_branches [where c = "mockController ['''']" and w = "Some ?same" and existing = ?same
      and cm = ?again, THEN conjunct2, THEN conjunct2, THEN mp, OF same]
  have third: "up_calls (upsertConfigMap (mockController ['''']) ?again (Some ?same)) = []" .
  let ?c = "mockController ['''']"
  let ?cm = "candidate (GoMap [(''k'', ''new'')])"
  let ?ex = "destination (GoMap [(''k'', ''old'')])"
  have absent: "getConfigMap (client ?c) None (targetNamespace ?c) (targetName ?c) = Inl ErrNotExist"
    by (simp add: mockController_def mockClient_def)
  have present: "getConfigMap (client ?c) (Some ?ex) (targetNamespace ?c) (targetName ?c) = Inr ?ex \<and>
      Annotations (Metadata ?cm) = GoMap [(''configmap-aggregator'', ''target'')] \<and>
      Labels (Metadata ?cm) = GoMap [(''fresh'', ''yes'')] \<and>
      distinct (map fst (range_map (Annotations (Metadata ?ex)))) \<and>
      distinct (map fst (range_map (Labels (Metadata ?ex))))"
    by (simp add: mockController_def mockClient_def candidate_def destination_def range_map_def)
  have differ: "\<not> compareConfigMaps ?ex ?cm"
    by code_simp
  from upsert_branches [where c = ?c and w = None and cm = ?cm, THEN conjunct1, THEN mp, OF absent]
  have first: "up_calls (upsertConfigMap ?c ?cm None) = [Create ?cm] \<and>
      up_calls (upsertConfigMap_main ?c ?cm None) = [Create ?cm]" .
  from upsert_branches [where c = ?c and w = "Some ?ex" and existing = ?ex and cm = ?cm,
      THEN conjunct2, THEN conjunct1, THEN mp, OF present]
  obtain cm' where u: "up_calls (upsertConfigMap ?c ?cm (Some ?ex)) =
        (if compareConfigMaps ?ex ?cm then [] else [Update cm'])"
    and m: "up_calls (upsertConfigMap_main ?c ?cm (Some ?ex)) = [Update cm']"
    and d: "Data cm' = Data ?cm"
    and v: "ResourceVersion (Metadata cm') = ResourceVersion (Metadata ?ex)"
    and a: "\<forall>k. map_of (range_map (Annotations (Metadata cm'))) k =
                (case map_of (range_map (Annotations (Metadata ?ex))) k of
                   Some v \<Rightarrow> Some v | None \<Rightarrow> map_of [(''configmap-aggregator'', ''target'')] k)"
    and l: "\<forall>k. map_of (range_map (Labels (Metadata cm'))) k =
                (case map_of (range_map (Labels (Metadata ?ex))) k of
                   Some v \<Rightarrow> Some v | None \<Rightarrow> map_of [(''fresh'', ''yes'')] k)"
    by (elim exE conjE)
  from u differ have u': "up_calls (upsertConfigMap ?c ?cm (Some ?ex)) = [Update cm']"
    by simp
  from d have d': "Data cm' = GoMap [(''k'', ''new'')]"
    by (simp add: candidate_def)
  from v have v': "ResourceVersion (Metadata cm') = ''41''"
    by (simp add: destination_def)
  from a [rule_format, of "''configmap-aggregator''"]
  have a': "map_of (range_map (Annotations (Metadata cm'))) ''configmap-aggregator'' = Some ''kept''"
    by (simp add: destination_def range_map_def)
  from l [rule_format, of "''fresh''"]
  have l': "map_of (range_map (Labels (Metadata cm'))) ''fresh'' = Some ''yes''"
    by (simp add: destination_def range_map_def)
  from u' m d' v' a' l' have "\<exists>cm'. up_calls (upsertConfigMap ?c ?cm (Some ?ex)) = [Update cm'] \<and>
          up_calls (upsertConfigMap_main ?c ?cm (Some ?ex)) = [Update cm'] \<and>
          Data cm' = GoMap [(''k'', ''new'')] \<and>
          ResourceVersion (Metadata cm') = ''41'' \<and>
          map_of (range_map (Annotations (Metadata cm'))) ''configmap-aggregator'' = Some ''kept'' \<and>
          map_of (range_map (Labels (Metadata cm'))) ''fresh'' = Some ''yes''"
    by (intro exI [of _ cm'] conjI)
  with first third show ?thesis by (intro conjI) (elim conjE, assumption)+
qed

section \<open>The aggregator: \<open>New\<close>\<close>

text \<open>
  Claim C10, as amended. If an option function fails or the option functions leave no lister
  set, \<open>New\<close> returns a nil aggregator and an error. If all option functions succeed, a
  lister is set, and a logger is set or \<open>NewLogger\<close> returns no error, \<open>New\<close> returns an
  aggregator and no error; it has that lister, and its partitions are the configured ones,
  or the single empty string (all partitions) if none was configured.
\<close>

theorem New_needs_lister:
  "(fst (run_options options initial) \<noteq> None \<or> lister (snd (run_options options initial)) = None \<longrightarrow>
      fst (New NewLogger NewOsFs options) = None \<and> snd (New NewLogger NewOsFs options) \<noteq> None) \<and>
   (fst (run_options options initial) = None \<and> lister (snd (run_options options initial)) \<noteq> None \<and>
    (logger (snd (run_options options initial)) \<noteq> None \<or> snd NewLogger = None) \<longrightarrow>
      (\<exists>a. New NewLogger NewOsFs options = (Some a, None) \<and>
           lister a = lister (snd (run_options options initial)) \<and>
           namespaces a =
             (if namespaces (snd (run_options options initial)) = [] then ['''']
              else namespaces (snd (run_options options initial)))))"
proof -
  obtain r a where ro: "run_options options initial = (r, a)"
    by (cases "run_options options initial")
  obtain l e where nl: "NewLogger = (l, e)"
    by (cases NewLogger)
  show ?thesis
    unfolding ro nl
    by (cases r; cases e) (auto simp: New_def ro Let_def)
qed

text \<open>The first two cases of \<open>TestNew\<close>: no lister, and the mock lister, each with an empty webhook.\<close>

theorem New_needs_lister_witness:
  "(fst (New (Some Logger, None) MemMapFs [SetConfigMapLister None, SetWebHook (\<lambda>u. None) '''']) = None \<and>
    snd (New (Some Logger, None) MemMapFs [SetConfigMapLister None, SetWebHook (\<lambda>u. None) '''']) \<noteq> None) \<and>
   (\<exists>a. New (Some Logger, None) MemMapFs [SetConfigMapLister (Some mockLister), SetWebHook (\<lambda>u. None) '''']
           = (Some a, None) \<and>
        lister a = Some mockLister \<and> namespaces a = [''''])"
proof -
  let ?none = "[SetConfigMapLister None, SetWebHook (\<lambda>u. None) ''''] :: memfs OptionsFunc list"
  let ?some = "[SetConfigMapLister (Some mockLister), SetWebHook (\<lambda>u. None) ''''] :: memfs OptionsFunc list"
  have rn: "run_options ?none initial = (None, initial)"
    by (simp add: SetConfigMapLister_def SetWebHook_def initial_def)
  have rs: "run_options ?some initial = (None, initial\<lparr>lister := Some mockLister\<rparr>)"
    by (simp add: SetConfigMapLister_def SetWebHook_def initial_def)
  have 1: "fst (run_options ?none initial) \<noteq> None \<or> lister (snd (run_options ?none initial)) = None"
    unfolding rn by (simp add: initial_def)
  have 2: "fst (run_options ?some initial) = None \<and> lister (snd (run_options ?some initial)) \<noteq> None \<and>
      (logger (snd (run_options ?some initial)) \<noteq> None \<or> snd (Some Logger, None :: error option) = None)"
    unfolding rs by simp
  from New_needs_lister [where options = ?none and NewLogger = "(Some Logger, None)" and NewOsFs = MemMapFs,
      THEN conjunct1, THEN mp, OF 1]
  have first: "fst (New (Some Logger, None) MemMapFs ?none) = None \<and>
      snd (New (Some Logger, None) MemMapFs ?none) \<noteq> None" .
  from New_needs_lister [where options = ?some and NewLogger = "(Some Logger, None)" and NewOsFs = MemMapFs,
      THEN conjunct2, THEN mp, OF 2]
  have "\<exists>a. New (Some Logger, None) MemMapFs ?some = (Some a, None) \<and>
        lister a = Some mockLister \<and> namespaces a = ['''']"
    unfolding rs by (simp add: initial_def)
  with first show ?thesis by (intro conjI) (elim conjE, assumption)+
qed

text \<open>
  Claim C10 as stated fails: with a lister set and every option function successful,
  \<open>New\<close> still returns nil and an error where no logger was set and \<open>NewLogger\<close> fails.
\<close>

theorem New_logger_failure:
  "lister (snd (run_options [SetConfigMapLister (Some mockLister)] (initial :: memfs Aggregator))) = Some mockLister \<and>
   fst (run_options [SetConfigMapLister (Some mockLister)] (initial :: memfs Aggregator)) = None \<and>
   New (None, Some (ErrorString ''no sink'')) MemMapFs [SetConfigMapLister (Some mockLister)] =
     (None, Some (WithMessage (ErrorString ''no sink'') ''failed to create logger''))"
  by (simp add: New_def SetConfigMapLister_def initial_def)

section \<open>The aggregator: \<open>Once\<close>\<close>

text \<open>
  Where the loops run to their end, \<open>changed\<close> is set exactly if a mutation of the file
  store was issued: a write sets it before it is issued, a removal after it succeeded, and a
  failure of either leaves \<open>Once\<close>.
\<close>

lemma write_file_continues:
  "write_file f name val c = (c', None) \<Longrightarrow> changed c' \<and> fs_calls c' \<noteq> []"
  by (auto simp: write_file_def Let_def split: prod.splits option.splits)

lemma data_entry_flag:
  assumes "changed c = (fs_calls c \<noteq> [])" and "data_entry f lg dir item kv c = (c', None)"
  shows "changed c' = (fs_calls c' \<noteq> [])"
  using assms
  by (auto simp: data_entry_def Let_def split: if_splits sum.splits option.splits
      dest: write_file_continues)

lemma data_loop_flag:
  "changed c = (fs_calls c \<noteq> []) \<Longrightarrow> data_loop f lg dir item kvs c = (c', None) \<Longrightarrow>
   changed c' = (fs_calls c' \<noteq> [])"
proof (induction kvs arbitrary: c)
  case Nil
  then show ?case by simp
next
  case (Cons kv kvs)
  obtain c1 r where e: "data_entry f lg dir item kv c = (c1, r)"
    by (cases "data_entry f lg dir item kv c")
  with Cons.prems(2) have r: "r = None" and l: "data_loop f lg dir item kvs c1 = (c', None)"
    by (auto split: option.splits)
  from data_entry_flag [OF Cons.prems(1) e [unfolded r]] have "changed c1 = (fs_calls c1 \<noteq> [])" .
  from Cons.IH [OF this l] show ?case .
qed

lemma items_loop_flag:
  "changed c = (fs_calls c \<noteq> []) \<Longrightarrow> items_loop f lg dir items c = (c', None) \<Longrightarrow>
   changed c' = (fs_calls c' \<noteq> [])"
proof (induction items arbitrary: c)
  case Nil
  then show ?case by simp
next
  case (Cons item items)
  obtain c1 r where e: "data_loop f lg dir item (v1_Data item) c = (c1, r)"
    by (cases "data_loop f lg dir item (v1_Data item) c")
  with Cons.prems(2) have r: "r = None" and l: "items_loop f lg dir items c1 = (c', None)"
    by (auto split: option.splits)
  from data_loop_flag [OF Cons.prems(1) e [unfolded r]] have "changed c1 = (fs_calls c1 \<noteq> [])" .
  from Cons.IH [OF this l] show ?case .
qed

lemma namespaces_loop_flag:
  "changed c = (fs_calls c \<noteq> []) \<Longrightarrow> namespaces_loop a f ns c = (c', None) \<Longrightarrow>
   changed c' = (fs_calls c' \<noteq> [])"
proof (induction ns arbitrary: c)
  case Nil
  then show ?case by simp
next
  case (Cons n ns)
  from Cons.prems(2) obtain list items where l: "lister a = Some list" and q: "list n (selector a) = Inr items"
    by (auto split: option.splits sum.splits)
  obtain c1 r where e: "items_loop f (logger a) (outputDir a) items c = (c1, r)"
    by (cases "items_loop f (logger a) (outputDir a) items c")
  with Cons.prems(2) l q have r: "r = None" and n: "namespaces_loop a f ns c1 = (c', None)"
    by (auto split: option.splits)
  from items_loop_flag [OF Cons.prems(1) e [unfolded r]] have "changed c1 = (fs_calls c1 \<noteq> [])" .
  from Cons.IH [OF this n] show ?case .
qed

lemma remove_loop_flag:
  "changed c = (fs_calls c \<noteq> []) \<Longrightarrow> remove_loop f ks c = (c', None) \<Longrightarrow>
   changed c' = (fs_calls c' \<noteq> [])"
proof (induction ks arbitrary: c)
  case Nil
  then show ?case by simp
next
  case (Cons k ks)
  from Cons.prems(2) obtain s' where
    l: "remove_loop f ks (c\<lparr>store := s', changed := True, fs_calls := fs_calls c @ [Remove k]\<rparr>) = (c', None)"
    by (auto split: prod.splits option.splits)
  from Cons.IH [OF _ l] show ?case by simp
qed

lemma synchronise_flag:
  assumes "synchronise a f s = (c, None)"
  shows "changed c = (fs_calls c \<noteq> [])"
proof -
  from assms obtain files c1 where
    n: "namespaces_loop a f (namespaces a)
          \<lparr>store = s, existingFiles = track_files files [], changed = False, fs_calls = []\<rparr> = (c1, None)"
    and r: "remove_loop f (existingFiles c1) c1 = (c, None)"
    by (auto simp: synchronise_def Let_def split: sum.splits prod.splits option.splits)
  from namespaces_loop_flag [OF _ n] have "changed c1 = (fs_calls c1 \<noteq> [])" by simp
  from remove_loop_flag [OF this r] show ?thesis .
qed

text \<open>
  Claim C6, as amended. In a cycle whose listing and three loops run to their end,
  \<open>changed\<close> holds exactly if a write or a removal was issued, and a request is sent
  exactly if \<open>changed\<close> holds, a webhook is configured and \<open>http.NewRequest\<close> builds the
  request; it is then the one request built from the configured method, the webhook and a nil
  body. A cycle that returns before the webhook step sends nothing. The method that \<open>New\<close>
  starts from is \<open>POST\<close>.
\<close>

theorem notification_iff_changed:
  "fs a = Some f \<longrightarrow>
     (snd (synchronise a f s) = None \<longrightarrow>
        out_changed (Once h a s) = (out_fs_calls (Once h a s) \<noteq> []) \<and>
        (out_requests (Once h a s) \<noteq> [] \<longleftrightarrow>
           out_changed (Once h a s) \<and> webhook a \<noteq> '''' \<and>
           (\<exists>req. http_NewRequest h (webhookMethod a) (webhook a) None = Inr req)) \<and>
        (\<forall>req. out_changed (Once h a s) \<and> webhook a \<noteq> '''' \<and>
               http_NewRequest h (webhookMethod a) (webhook a) None = Inr req \<longrightarrow>
               out_requests (Once h a s) = [req])) \<and>
     (snd (synchronise a f s) \<noteq> None \<longrightarrow> out_requests (Once h a s) = []) \<and>
     webhookMethod (initial :: 's Aggregator) = ''POST''"
proof (intro impI conjI allI)
  assume f: "fs a = Some f" and n: "snd (synchronise a f s) = None"
  obtain c where c: "synchronise a f s = (c, None)"
    using n by (cases "synchronise a f s") auto
  have o: "Once h a s = (case notify h a (changed c) of (reqs, r) \<Rightarrow> leave c reqs r)"
    using f c by (simp add: Once_def)
  show "out_changed (Once h a s) = (out_fs_calls (Once h a s) \<noteq> [])"
    using synchronise_flag [OF c] unfolding o by (simp add: leave_def split: prod.splits)
  show "(out_requests (Once h a s) \<noteq> []) =
     (out_changed (Once h a s) \<and> webhook a \<noteq> '''' \<and>
      (\<exists>req. http_NewRequest h (webhookMethod a) (webhook a) None = Inr req))"
    unfolding o by (auto simp: leave_def notify_def split: prod.splits sum.splits if_splits)
  fix req
  assume "out_changed (Once h a s) \<and> webhook a \<noteq> '''' \<and>
               http_NewRequest h (webhookMethod a) (webhook a) None = Inr req"
  then show "out_requests (Once h a s) = [req]"
    unfolding o by (auto simp: leave_def notify_def split: prod.splits sum.splits if_splits)
next
  assume f: "fs a = Some f" and n: "snd (synchronise a f s) \<noteq> None"
  then show "out_requests (Once h a s) = []"
    by (cases "synchronise a f s") (auto simp: Once_def leave_def)
next
  show "webhookMethod (initial :: 's Aggregator) = ''POST''"
    by (simp add: initial_def)
qed

text \<open>
  The collections of the tests written to an empty directory, with a webhook: one \<open>POST\<close>
  without body. A cycle whose only query fails: no request.
\<close>

theorem notification_iff_changed_witness:
  "out_changed (Once (sink 200) (configured [''''] mockLister ''.'' ''http://hook'') [(''.'', Dir)]) =
     (out_fs_calls (Once (sink 200) (configured [''''] mockLister ''.'' ''http://hook'') [(''.'', Dir)]) \<noteq> []) \<and>
   out_requests (Once (sink 200) (configured [''''] mockLister ''.'' ''http://hook'') [(''.'', Dir)]) =
     [\<lparr>req_Method = ''POST'', req_URL = ''http://hook'', req_Body = None\<rparr>] \<and>
   out_requests (Once (sink 200) (configured [''prod''] (brokenLister ''prod'') ''.'' ''http://hook'') [(''.'', Dir)]) = []"
proof -
  let ?a = "configured [''''] mockLister ''.'' ''http://hook''"
  let ?b = "configured [''prod''] (brokenLister ''prod'') ''.'' ''http://hook''"
  let ?s = "[(''.'', Dir)] :: memfs"
  have fa: "fs ?a = Some MemMapFs" and fb: "fs ?b = Some MemMapFs"
    by (simp_all add: configured_def)
  have sa: "snd (synchronise ?a MemMapFs ?s) = None"
    by code_simp
  have sb: "snd (synchronise ?b MemMapFs ?s) \<noteq> None"
    by code_simp
  have ch: "out_changed (Once (sink 200) ?a ?s) \<and> webhook ?a \<noteq> '''' \<and>
      http_NewRequest (sink 200) (webhookMethod ?a) (webhook ?a) None =
        Inr \<lparr>req_Method = ''POST'', req_URL = ''http://hook'', req_Body = None\<rparr>"
    by code_simp
  note A = notification_iff_changed [where a = ?a and f = MemMapFs and s = ?s and h = "sink 200",
      THEN mp, OF fa, THEN conjunct1, THEN mp, OF sa]
  note B = notification_iff_changed [where a = ?b and f = MemMapFs and s = ?s and h = "sink 200",
      THEN mp, OF fb, THEN conjunct2, THEN conjunct1, THEN mp, OF sb]
  from A [THEN conjunct1] A [THEN conjunct2, THEN conjunct2, rule_format, OF ch] B
  show ?thesis by (intro conjI)
qed

text \<open>
  Claim C6 as stated fails: the cycle writes the four files of the partition \<open>a\<close>, so
  \<open>changed\<close> is set and a webhook is configured, and returns at the failed query for the
  partition \<open>b\<close> without a request.
\<close>

theorem aborted_cycle_sends_nothing:
  "out_changed (Once (sink 200) (configured [''a'', ''b''] (brokenLister ''b'') ''.'' ''http://hook'') [(''.'', Dir)]) \<and>
   out_fs_calls (Once (sink 200) (configured [''a'', ''b''] (brokenLister ''b'') ''.'' ''http://hook'') [(''.'', Dir)]) =
     [WriteFile ''default_item1_foo.txt'' ''1234567890'', WriteFile ''default_item1_bar.txt'' ''0987654321'',
      WriteFile ''default_item2_baz.txt'' ''qwertyuiop'', WriteFile ''default_item2_abc.txt'' ''asdfghjkl''] \<and>
   webhook (configured [''a'', ''b''] (brokenLister ''b'') ''.'' ''http://hook'') = ''http://hook'' \<and>
   out_requests (Once (sink 200) (configured [''a'', ''b''] (brokenLister ''b'') ''.'' ''http://hook'') [(''.'', Dir)]) = []"
  by code_simp

text \<open>
  Claim C4 fails on the code. The sink answers the one request with the status 500;
  \<open>Once\<close> wraps the nil \<open>err\<close> of the answered request, and \<open>errors.Wrapf\<close> of nil is
  nil, so the cycle returns nil. The four files written before stay.
\<close>

theorem refused_notification_returns_nil:
  "out_requests (Once (sink 500) (configured [''''] mockLister ''.'' ''http://hook'') [(''.'', Dir)]) =
     [\<lparr>req_Method = ''POST'', req_URL = ''http://hook'', req_Body = None\<rparr>] \<and>
   out_ret (Once (sink 500) (configured [''''] mockLister ''.'' ''http://hook'') [(''.'', Dir)]) = Returned None \<and>
   out_store (Once (sink 500) (configured [''''] mockLister ''.'' ''http://hook'') [(''.'', Dir)]) =
     [(''.'', Dir), (''default_item1_foo.txt'', File ''1234567890''),
      (''default_item1_bar.txt'', File ''0987654321''), (''default_item2_baz.txt'', File ''qwertyuiop''),
      (''default_item2_abc.txt'', File ''asdfghjkl'')]"
  by code_simp

text \<open>
  Claim C5 fails on the code in what the error carries. \<open>Once\<close> returns at the failed
  query, with the same error for the partition \<open>prod\<close> as for \<open>staging\<close>: the message
  is formatted with the empty string. \<open>createConfigMap\<close> formats its message with the
  partition.
\<close>

theorem failed_query_error_names_no_partition:
  "out_ret (Once (sink 200) (configured [''prod''] (brokenLister ''prod'') ''.'' '''') [(''.'', Dir)]) =
     Returned (Some (WithMessage (ErrorString ''boom'') ''failed to list config maps for namespace '')) \<and>
   out_ret (Once (sink 200) (configured [''staging''] (brokenLister ''staging'') ''.'' '''') [(''.'', Dir)]) =
     Returned (Some (WithMessage (ErrorString ''boom'') ''failed to list config maps for namespace '')) \<and>
   createConfigMap newConfigMap (mockController [''bad'']) ''app=x'' None =
     Returned (None, Some (WithMessage (ErrorString ''boom'') ''failed to get config maps for bad app=x''))"
  by code_simp

text \<open>
  What holds of the two claims above on every input. The loop over the partitions returns
  at the first failed query, whatever partitions follow; the message of its error is fixed,
  so the partition can be read from the error only where the lister itself names it, as
  \<open>K8s.List\<close> does.
\<close>

lemma namespaces_loop_append:
  "namespaces_loop a f (pre @ post) c =
     (case namespaces_loop a f pre c of
        (c', Some r) \<Rightarrow> (c', Some r)
      | (c', None) \<Rightarrow> namespaces_loop a f post c')"
  by (induction pre arbitrary: c) (auto split: option.splits sum.splits prod.splits)

lemma failed_query_returns_at_once:
  assumes "lister a = Some list" and "list n (selector a) = Inl err"
    and "namespaces_loop a f pre c = (c', None)"
  shows "namespaces_loop a f (pre @ n # post) c =
           (c', Some (Returned (Some (WithMessage err ''failed to list config maps for namespace ''))))"
  using assms by (simp add: namespaces_loop_append)

lemma failed_query_of_K8s_names_partition:
  assumes "lister a = Some (K8s_List clientset)" and "clientset n (selector a) = Inl err"
  shows "namespaces_loop a f (n # post) c =
           (c, Some (Returned (Some (WithMessage
                 (WithMessage err (''failed to list config maps for '' @ n))
                 ''failed to list config maps for namespace ''))))"
  using assms by (simp add: K8s_List_def)

text \<open>
  The webhook step returns the error of a request that could not be sent, and nil for every
  request that was answered, whatever the status.
\<close>

lemma notify_transport_failure:
  assumes "chg" and "webhook a \<noteq> ''''"
    and "http_NewRequest h (webhookMethod a) (webhook a) None = Inr req"
    and "http_Do h req = Inl err"
  shows "notify h a chg = ([req], Returned (Some (WithMessage err ''webhook request failed'')))"
  using assms by (simp add: notify_def)

lemma notify_any_status:
  assumes "chg" and "webhook a \<noteq> ''''"
    and "http_NewRequest h (webhookMethod a) (webhook a) None = Inr req"
    and "http_Do h req = Inr StatusCode"
  shows "notify h a chg = ([req], Returned None)"
  using assms by (simp add: notify_def)

subsection \<open>Paths of the default directory\<close>

lemma split_slash_name:
  "CHR ''/'' \<notin> set p \<Longrightarrow> split_slash p = [p]"
  by (induction p) auto

lemma Clean_name:
  assumes "p \<noteq> []" "CHR ''/'' \<notin> set p"
  shows "filepath_Clean p = p"
proof -
  from assms have h: "hd p \<noteq> CHR ''/''"
    by (cases p) auto
  from assms show ?thesis
    by (simp add: filepath_Clean_def Let_def h split_slash_name)
qed

lemma Join_name:
  assumes "name_ok p"
  shows "filepath_Join [''.'', p] = p"
proof -
  from assms have n: "CHR ''/'' \<notin> set p" "p \<noteq> []" "p \<noteq> ''.''"
    by (simp_all add: name_ok_def)
  have s: "split_slash (CHR ''.'' # CHR ''/'' # p) = [''.'', p]"
    by (simp add: split_slash_name [OF n(1)])
  have j: "strings_Join [''.'', p] ''/'' = ''./'' @ p"
    by simp
  show ?thesis
    using n unfolding filepath_Join.simps j
    by (simp add: filepath_Clean_def Let_def s del: split_slash.simps)
qed

lemma Dir_name:
  "CHR ''/'' \<notin> set p \<Longrightarrow> filepath_Dir p = ''.''"
proof -
  assume "CHR ''/'' \<notin> set p"
  then have "dropWhile (\<lambda>c. c \<noteq> CHR ''/'') (rev p) = []"
    by (auto simp: dropWhile_eq_Nil_conv)
  then show ?thesis
    by (simp add: filepath_Dir_def filepath_Clean_def)
qed

lemma Base_name:
  assumes "p \<noteq> []" "CHR ''/'' \<notin> set p"
  shows "filepath_Base p = p"
proof -
  from assms have "hd (rev p) \<noteq> CHR ''/''"
    by (metis hd_rev last_in_set)
  with assms have "dropWhile (\<lambda>c. c = CHR ''/'') (rev p) = rev p"
    by (cases "rev p") auto
  with assms show ?thesis
    by (simp add: filepath_Base_def Let_def split_slash_name)
qed

lemma file_name_ok:
  assumes "CHR ''/'' \<notin> set (file_name item key)"
  shows "name_ok (file_name item key)"
proof -
  have "CHR ''_'' \<in> set (file_name item key)"
    by (simp add: file_name_def)
  then have "file_name item key \<noteq> []" "file_name item key \<noteq> ''.''"
    by auto
  with assms show ?thesis by (simp add: name_ok_def)
qed

subsection \<open>The in-memory store on a flat tree\<close>

lemma flat_lookup:
  "flat_store s \<Longrightarrow> ((p, n) \<in> set s) = (map_of s p = Some n)"
  by (simp add: flat_store_def)

lemma flat_key:
  "flat_store s \<Longrightarrow> map_of s p = Some n \<Longrightarrow> p = ''.'' \<or> name_ok p"
  by (auto simp: flat_store_def list_all_iff dest!: map_of_SomeD)

lemma files_name_ok:
  assumes "flat_store s" "files s p = Some b"
  shows "name_ok p"
proof -
  from assms(2) have m: "map_of s p = Some (File b)"
    by (auto simp: files_def split: option.splits node.splits)
  from assms(1) have "map_of s ''.'' = Some Dir"
    by (simp add: flat_store_def)
  with m have "p \<noteq> ''.''" by auto
  with flat_key [OF assms(1) m] show ?thesis by simp
qed

lemma ReadFile_flat:
  "name_ok p \<Longrightarrow>
   afero_ReadFile MemMapFs s p =
     (case map_of s p of
        Some (File b) \<Rightarrow> Inr b
      | Some Dir \<Rightarrow> Inl (ErrorString ''is a directory'')
      | None \<Rightarrow> Inl (ErrorString ''file does not exist''))"
  by (simp add: MemMapFs_def mem_ReadFile_def Clean_name name_ok_def)

lemma WriteFile_flat:
  "flat_store s \<Longrightarrow> name_ok p \<Longrightarrow>
   afero_WriteFile MemMapFs s p v =
     (if map_of s p = Some Dir then (s, Some (ErrorString ''is a directory''))
      else (AList.update p (File v) s, None))"
  by (simp add: MemMapFs_def mem_WriteFile_def Clean_name Dir_name flat_store_def name_ok_def Let_def)

lemma Remove_flat_file:
  "name_ok p \<Longrightarrow> map_of s p = Some (File b) \<Longrightarrow> fs_Remove MemMapFs s p = (AList.delete p s, None)"
  by (simp add: MemMapFs_def mem_Remove_def Clean_name name_ok_def)

lemma list_all_update:
  "list_all P al \<Longrightarrow> P (k, v) \<Longrightarrow> list_all P (AList.update k v al)"
  by (induction al) auto

lemma flat_update:
  assumes "flat_store s" "name_ok p"
  shows "flat_store (AList.update p (File v) s)"
  using assms
  by (auto simp: flat_store_def update_conv' distinct_update name_ok_def intro!: list_all_update)

lemma flat_delete:
  assumes "flat_store s" "name_ok p"
  shows "flat_store (AList.delete p s)"
proof -
  from assms have "map_of (AList.delete p s) ''.'' = Some Dir"
    by (auto simp: flat_store_def delete_conv' name_ok_def)
  moreover from assms have "distinct (map fst (AList.delete p s))"
    by (simp add: flat_store_def distinct_delete)
  moreover from assms have "list_all (\<lambda>pn. fst pn = ''.'' \<or> name_ok (fst pn)) (AList.delete p s)"
    by (auto simp: flat_store_def AList.delete_eq list_all_iff)
  ultimately show ?thesis by (simp add: flat_store_def)
qed

lemma files_update:
  "files (AList.update p (File v) s) = (files s)(p \<mapsto> v)"
  by (auto simp: files_def update_conv' fun_eq_iff)

lemma files_delete:
  "files (AList.delete p s) = (files s)(p := None)"
  by (auto simp: files_def delete_conv' fun_eq_iff)

lemma ReadDir_flat:
  assumes "flat_store s"
  shows "afero_ReadDir MemMapFs s ''.'' =
     Inr (sort_key fi_Name (map (\<lambda>pn. \<lparr>fi_Name = fst pn, fi_IsDir = (snd pn = Dir)\<rparr>)
            (filter (\<lambda>pn. fst pn \<noteq> ''.'') s)))"
proof -
  have c: "filepath_Clean ''.'' = ''.''"
    by (simp add: Clean_name)
  from assms have d: "map_of s ''.'' = Some Dir"
    by (simp add: flat_store_def)
  from assms have k: "\<And>pn. pn \<in> set s \<Longrightarrow> fst pn \<noteq> ''.'' \<Longrightarrow> name_ok (fst pn)"
    by (auto simp: flat_store_def list_all_iff)
  have f: "filter (\<lambda>pn. fst pn \<noteq> ''.'' \<and> filepath_Dir (fst pn) = ''.'') s = filter (\<lambda>pn. fst pn \<noteq> ''.'') s"
    by (rule filter_cong) (auto dest!: k simp: name_ok_def Dir_name)
  have m: "map (\<lambda>pn. \<lparr>fi_Name = filepath_Base (fst pn), fi_IsDir = (snd pn = Dir)\<rparr>) (filter (\<lambda>pn. fst pn \<noteq> ''.'') s)
      = map (\<lambda>pn. \<lparr>fi_Name = fst pn, fi_IsDir = (snd pn = Dir)\<rparr>) (filter (\<lambda>pn. fst pn \<noteq> ''.'') s)"
    by (rule map_cong) (auto dest!: k simp: name_ok_def Base_name)
  show ?thesis
    by (simp add: MemMapFs_def mem_ReadDir_def c d f m)
qed

lemma set_track_files:
  "set (track_files fis E) = set E \<union> {fi_Name f | f. f \<in> set fis \<and> \<not> fi_IsDir f}"
  by (induction fis arbitrary: E) auto

lemma distinct_track_files:
  "distinct E \<Longrightarrow> distinct (track_files fis E)"
  by (induction fis arbitrary: E) auto

lemma tracked_flat:
  assumes "flat_store s" and r: "afero_ReadDir MemMapFs s ''.'' = Inr fis"
  shows "set (track_files fis []) = dom (files s)"
proof -
  from r ReadDir_flat [OF assms(1)]
  have "fis = sort_key fi_Name (map (\<lambda>pn. \<lparr>fi_Name = fst pn, fi_IsDir = (snd pn = Dir)\<rparr>)
            (filter (\<lambda>pn. fst pn \<noteq> ''.'') s))"
    by simp
  then have fis: "set fis = (\<lambda>pn. \<lparr>fi_Name = fst pn, fi_IsDir = (snd pn = Dir)\<rparr>) ` {pn \<in> set s. fst pn \<noteq> ''.''}"
    by simp
  from assms(1) have d: "map_of s ''.'' = Some Dir"
    by (simp add: flat_store_def)
  show ?thesis
  proof (intro set_eqI iffI)
    fix p assume "p \<in> set (track_files fis [])"
    then obtain n where "(p, n) \<in> set s" "n \<noteq> Dir"
      unfolding set_track_files fis by auto
    with assms(1) show "p \<in> dom (files s)"
      by (cases n) (auto simp: files_def flat_lookup)
  next
    fix p assume "p \<in> dom (files s)"
    then obtain b where b: "map_of s p = Some (File b)"
      by (auto simp: files_def split: option.splits node.splits)
    with d have "p \<noteq> ''.''" by auto
    with b assms(1) have "(p, File b) \<in> {pn \<in> set s. fst pn \<noteq> ''.''}"
      by (simp add: flat_lookup)
    then have "\<lparr>fi_Name = p, fi_IsDir = False\<rparr> \<in> set fis"
      unfolding fis by force
    then show "p \<in> set (track_files fis [])"
      unfolding set_track_files by force
  qed
qed

subsection \<open>The loops as one loop\<close>

lemma entries_loop_append:
  "entries_loop f lg dir (es @ es') c =
     (case entries_loop f lg dir es c of
        (c', Some r) \<Rightarrow> (c', Some r)
      | (c', None) \<Rightarrow> entries_loop f lg dir es' c')"
  by (induction es arbitrary: c) (auto split: prod.splits option.splits)

lemma data_loop_entries:
  "data_loop f lg dir item kvs c = entries_loop f lg dir (map (Pair item) kvs) c"
  by (induction kvs arbitrary: c) (auto split: prod.splits option.splits)

lemma items_loop_entries:
  "items_loop f lg dir items c =
     entries_loop f lg dir (concat (map (\<lambda>item. map (Pair item) (v1_Data item)) items)) c"
  by (induction items arbitrary: c)
     (auto simp: entries_loop_append data_loop_entries split: prod.splits option.splits)

lemma namespaces_loop_entries:
  assumes "lister a = Some list" and "\<forall>n \<in> set ns. \<exists>items. list n (selector a) = Inr items"
  shows "namespaces_loop a f ns c =
           entries_loop f (logger a) (outputDir a) (listed_entries list (selector a) ns) c"
  using assms(2)
proof (induction ns arbitrary: c)
  case Nil
  show ?case by (simp add: listed_entries_def)
next
  case (Cons n ns)
  from Cons.prems obtain items where q: "list n (selector a) = Inr items" by auto
  have l: "listed_entries list (selector a) (n # ns) =
      concat (map (\<lambda>item. map (Pair item) (v1_Data item)) items) @ listed_entries list (selector a) ns"
    by (simp add: listed_entries_def q)
  from Cons.prems have "\<forall>n \<in> set ns. \<exists>items. list n (selector a) = Inr items" by simp
  from Cons.IH [OF this] show ?case
    by (simp add: assms(1) q l entries_loop_append items_loop_entries split: prod.splits option.splits)
qed

lemma namespaces_loop_queries:
  "namespaces_loop a f ns c = (c', None) \<Longrightarrow> lister a = Some list \<Longrightarrow>
   \<forall>n \<in> set ns. \<exists>items. list n (selector a) = Inr items"
proof (induction ns arbitrary: c)
  case Nil
  show ?case by simp
next
  case (Cons n ns)
  from Cons.prems obtain items where q: "list n (selector a) = Inr items"
    by (cases "list n (selector a)") auto
  obtain c1 r where i: "items_loop f (logger a) (outputDir a) items c = (c1, r)"
    by (cases "items_loop f (logger a) (outputDir a) items c")
  with Cons.prems q have "namespaces_loop a f ns c1 = (c', None)"
    by (auto split: option.splits)
  from Cons.IH [OF this Cons.prems(2)] q show ?case by simp
qed

subsection \<open>One cycle on a flat tree\<close>

text \<open>An early return is an error or a panic, never nil.\<close>

lemma write_file_stops:
  "write_file f name val c = (c', Some r) \<Longrightarrow> r \<noteq> Returned None"
  by (auto simp: write_file_def Let_def split: prod.splits option.splits)

lemma data_entry_stops:
  "data_entry f lg dir item kv c = (c', Some r) \<Longrightarrow> r \<noteq> Returned None"
  by (auto simp: data_entry_def Let_def split: if_splits sum.splits option.splits
      dest: write_file_stops)

lemma entries_loop_stops:
  "entries_loop f lg dir es c = (c', Some r) \<Longrightarrow> r \<noteq> Returned None"
proof (induction es arbitrary: c)
  case Nil
  then show ?case by simp
next
  case (Cons e es)
  obtain c1 r1 where d: "data_entry f lg dir (fst e) (snd e) c = (c1, r1)"
    by (cases "data_entry f lg dir (fst e) (snd e) c")
  show ?case
  proof (cases r1)
    case None
    with Cons.prems d have "entries_loop f lg dir es c1 = (c', Some r)" by simp
    then show ?thesis by (rule Cons.IH)
  next
    case (Some r2)
    with Cons.prems d have "r = r2" by simp
    with d Some show ?thesis by (auto dest: data_entry_stops)
  qed
qed

lemma namespaces_loop_stops:
  "namespaces_loop a f ns c = (c', Some r) \<Longrightarrow> r \<noteq> Returned None"
proof (induction ns arbitrary: c)
  case Nil
  then show ?case by simp
next
  case (Cons n ns)
  show ?case
  proof (cases "lister a")
    case None
    with Cons.prems show ?thesis by auto
  next
    case (Some list)
    show ?thesis
    proof (cases "list n (selector a)")
      case (Inl err)
      with Cons.prems Some show ?thesis by auto
    next
      case (Inr items)
      obtain c1 r1 where i: "items_loop f (logger a) (outputDir a) items c = (c1, r1)"
        by (cases "items_loop f (logger a) (outputDir a) items c")
      show ?thesis
      proof (cases r1)
        case None
        with Cons.prems Some Inr i have "namespaces_loop a f ns c1 = (c', Some r)" by simp
        then show ?thesis by (rule Cons.IH)
      next
        case (Some r2)
        with Cons.prems \<open>lister a = Some list\<close> Inr i have "r = r2" by simp
        with i Some show ?thesis
          by (auto simp: items_loop_entries dest: entries_loop_stops)
      qed
    qed
  qed
qed

lemma remove_loop_stops:
  "remove_loop f ks c = (c', Some r) \<Longrightarrow> r \<noteq> Returned None"
  by (induction ks arbitrary: c) (auto split: prod.splits option.splits)

lemma synchronise_stops:
  "synchronise a f s = (c, Some r) \<Longrightarrow> r \<noteq> Returned None"
  by (auto simp: synchronise_def Let_def split: sum.splits prod.splits option.splits
      dest: namespaces_loop_stops remove_loop_stops)

lemma Once_nil_synchronised:
  assumes "fs a = Some f" and "out_ret (Once h a s) = Returned None"
  shows "\<exists>c. synchronise a f s = (c, None) \<and> out_store (Once h a s) = store c"
proof -
  obtain c r where s: "synchronise a f s = (c, r)"
    by (cases "synchronise a f s")
  show ?thesis
  proof (cases r)
    case None
    with s assms(1) show ?thesis
      by (auto simp: Once_def leave_def split: prod.splits)
  next
    case (Some r')
    with s assms have "r' = Returned None"
      by (simp add: Once_def leave_def)
    with synchronise_stops [of a f s c r'] s Some show ?thesis by simp
  qed
qed

text \<open>
  One entry in the default directory: its file holds its value afterwards, and its name is
  no longer tracked.
\<close>

lemma data_entry_flat:
  assumes flat: "flat_store (store c)"
    and ok: "name_ok (file_name item key)"
    and tr: "set (existingFiles c) \<subseteq> dom (files (store c))"
    and r: "data_entry MemMapFs lg ''.'' item (key, v) c = (c', None)"
  shows "flat_store (store c') \<and>
         files (store c') = (files (store c))(file_name item key \<mapsto> v) \<and>
         existingFiles c' = removeAll (file_name item key) (existingFiles c)"
proof -
  let ?p = "file_name item key"
  have j: "filepath_Join [''.'', Namespace (ObjectMeta item) @ ''_'' @ Name (ObjectMeta item) @ ''_'' @ key] = ?p"
    using Join_name [OF ok] by (simp add: file_name_def)
  have w: "\<And>d d'. flat_store (store d) \<Longrightarrow> write_file MemMapFs ?p v d = (d', None) \<Longrightarrow>
      flat_store (store d') \<and> files (store d') = (files (store d))(?p \<mapsto> v) \<and>
      existingFiles d' = existingFiles d"
    using ok
    by (auto simp: write_file_def WriteFile_flat flat_update files_update Let_def split: if_splits)
  show ?thesis
  proof (cases "?p \<in> set (existingFiles c)")
    case False
    with r j have "write_file MemMapFs ?p v c = (c', None)"
      by (simp add: data_entry_def Let_def)
    from w [OF flat this] False show ?thesis by simp
  next
    case True
    with tr obtain b where b: "files (store c) ?p = Some b" by auto
    then have m: "map_of (store c) ?p = Some (File b)"
      by (auto simp: files_def split: option.splits node.splits)
    let ?c = "c\<lparr>existingFiles := removeAll ?p (existingFiles c)\<rparr>"
    show ?thesis
    proof (cases "b = v")
      case True
      with r j \<open>?p \<in> set (existingFiles c)\<close> m ok have "c' = ?c"
        by (auto simp: data_entry_def Let_def ReadFile_flat split: option.splits)
      with flat b True show ?thesis by (simp add: fun_upd_idem)
    next
      case False
      with r j \<open>?p \<in> set (existingFiles c)\<close> m ok have "write_file MemMapFs ?p v ?c = (c', None)"
        by (auto simp: data_entry_def Let_def ReadFile_flat split: option.splits)
      from w [of ?c c'] flat this show ?thesis by simp
    qed
  qed
qed

lemma entries_loop_flat:
  assumes "\<forall>e \<in> set es. name_ok (file_name (fst e) (fst (snd e)))"
    and "flat_store (store c)"
    and "set (existingFiles c) \<subseteq> dom (files (store c))"
    and "entries_loop MemMapFs lg ''.'' es c = (c', None)"
  shows "flat_store (store c') \<and>
         files (store c') =
           files (store c) ++ map_of (rev (map (\<lambda>e. (file_name (fst e) (fst (snd e)), snd (snd e))) es)) \<and>
         existingFiles c' =
           filter (\<lambda>p. p \<notin> (\<lambda>e. file_name (fst e) (fst (snd e))) ` set es) (existingFiles c)"
  using assms
proof (induction es arbitrary: c)
  case Nil
  then show ?case by simp
next
  case (Cons e es)
  obtain item key v where e: "e = (item, key, v)" by (cases e)
  obtain c1 r1 where d: "data_entry MemMapFs lg ''.'' item (key, v) c = (c1, r1)"
    by (cases "data_entry MemMapFs lg ''.'' item (key, v) c")
  with Cons.prems(4) e have r1: "r1 = None" and l: "entries_loop MemMapFs lg ''.'' es c1 = (c', None)"
    by (auto split: option.splits)
  from Cons.prems(1) e have ok: "name_ok (file_name item key)" by simp
  from data_entry_flat [OF Cons.prems(2) ok Cons.prems(3) d [unfolded r1]]
  have f1: "flat_store (store c1)"
    and s1: "files (store c1) = (files (store c))(file_name item key \<mapsto> v)"
    and t1: "existingFiles c1 = removeAll (file_name item key) (existingFiles c)"
    by simp_all
  from Cons.prems(3) s1 t1 have tr1: "set (existingFiles c1) \<subseteq> dom (files (store c1))"
    by auto
  from Cons.prems(1) have "\<forall>e \<in> set es. name_ok (file_name (fst e) (fst (snd e)))" by simp
  from Cons.IH [OF this f1 tr1 l]
  have f': "flat_store (store c')"
    and s': "files (store c') =
           files (store c1) ++ map_of (rev (map (\<lambda>e. (file_name (fst e) (fst (snd e)), snd (snd e))) es))"
    and t': "existingFiles c' =
           filter (\<lambda>p. p \<notin> (\<lambda>e. file_name (fst e) (fst (snd e))) ` set es) (existingFiles c1)"
    by simp_all
  have "files (store c') =
      files (store c) ++ map_of (rev (map (\<lambda>e. (file_name (fst e) (fst (snd e)), snd (snd e))) (e # es)))"
    unfolding s' s1 e by (auto simp: map_add_def fun_eq_iff split: option.splits)
  moreover have "existingFiles c' =
      filter (\<lambda>p. p \<notin> (\<lambda>e. file_name (fst e) (fst (snd e))) ` set (e # es)) (existingFiles c)"
    unfolding t' t1 e by (auto simp: removeAll_filter_not_eq intro!: filter_cong)
  ultimately show ?case using f' by simp
qed

text \<open>The last loop removes every name left, if each is a file of the store.\<close>

lemma remove_loop_flat:
  assumes "flat_store (store c)" "distinct ks" "set ks \<subseteq> dom (files (store c))"
  shows "\<exists>c'. remove_loop MemMapFs ks c = (c', None) \<and> flat_store (store c') \<and>
              files (store c') = files (store c) |` (- set ks) \<and> (ks = [] \<longrightarrow> c' = c)"
  using assms
proof (induction ks arbitrary: c)
  case Nil
  then show ?case by simp
next
  case (Cons k ks)
  from Cons.prems(3) obtain b where b: "files (store c) k = Some b" by auto
  then have m: "map_of (store c) k = Some (File b)"
    by (auto simp: files_def split: option.splits node.splits)
  from files_name_ok [OF Cons.prems(1) b] have ok: "name_ok k" .
  let ?c = "c\<lparr>store := AList.delete k (store c), changed := True, fs_calls := fs_calls c @ [Remove k]\<rparr>"
  have step: "remove_loop MemMapFs (k # ks) c = remove_loop MemMapFs ks ?c"
    by (simp add: Remove_flat_file [OF ok m])
  from Cons.prems have "flat_store (store ?c)" "distinct ks" "set ks \<subseteq> dom (files (store ?c))"
    by (auto simp: flat_delete ok files_delete)
  from Cons.IH [OF this]
  obtain c' where l: "remove_loop MemMapFs ks ?c = (c', None)" and f: "flat_store (store c')"
    and s: "files (store c') = files (store ?c) |` (- set ks)"
    by blast
  have "files (store c') = files (store c) |` (- set (k # ks))"
    unfolding s by (auto simp: files_delete restrict_map_def fun_eq_iff)
  with step l f show ?case by simp
qed

text \<open>
  Tree correctness in the default directory. After a cycle that returned nil on a flat tree,
  the regular files are exactly the produced file names, each with the value produced last
  under its name; the tree is still flat.
\<close>

lemma synchronise_flat:
  assumes dir: "outputDir a = ''.''" and flat: "flat_store s"
    and l: "lister a = Some list"
    and names: "\<forall>e \<in> set (listed_entries list (selector a) (namespaces a)).
                  CHR ''/'' \<notin> set (file_name (fst e) (fst (snd e)))"
    and s: "synchronise a MemMapFs s = (c, None)"
  shows "flat_store (store c) \<and>
         files (store c) = map_of (rev (produced list (selector a) (namespaces a)))"
proof -
  let ?es = "listed_entries list (selector a) (namespaces a)"
  let ?init = "\<lparr>store = s, existingFiles = [], changed = False, fs_calls = []\<rparr>"
  from s dir obtain fis c1 where rd: "afero_ReadDir MemMapFs s ''.'' = Inr fis"
    and nl: "namespaces_loop a MemMapFs (namespaces a) (?init\<lparr>existingFiles := track_files fis []\<rparr>) = (c1, None)"
    and rl: "remove_loop MemMapFs (existingFiles c1) c1 = (c, None)"
    by (auto simp: synchronise_def Let_def split: sum.splits prod.splits option.splits)
  let ?start = "?init\<lparr>existingFiles := track_files fis []\<rparr>"
  from namespaces_loop_queries [OF nl l]
  have q: "\<forall>n \<in> set (namespaces a). \<exists>items. list n (selector a) = Inr items" .
  from nl namespaces_loop_entries [OF l q, of MemMapFs ?start] dir
  have el: "entries_loop MemMapFs (logger a) ''.'' ?es ?start = (c1, None)"
    by simp
  from names have ok: "\<forall>e \<in> set ?es. name_ok (file_name (fst e) (fst (snd e)))"
    by (auto intro: file_name_ok)
  have tr: "set (existingFiles ?start) \<subseteq> dom (files (store ?start))"
    using tracked_flat [OF flat rd] by simp
  from entries_loop_flat [OF ok _ tr el] flat
  have f1: "flat_store (store c1)"
    and s1: "files (store c1) = files s ++ map_of (rev (produced list (selector a) (namespaces a)))"
    and t1: "existingFiles c1 =
           filter (\<lambda>p. p \<notin> (\<lambda>e. file_name (fst e) (fst (snd e))) ` set ?es) (track_files fis [])"
    by (simp_all add: produced_def)
  have names_eq: "(\<lambda>e. file_name (fst e) (fst (snd e))) ` set ?es =
      fst ` set (produced list (selector a) (namespaces a))"
    by (force simp: produced_def)
  have d1: "distinct (existingFiles c1)"
    unfolding t1 by (simp add: distinct_track_files)
  have sub: "set (existingFiles c1) \<subseteq> dom (files (store c1))"
    unfolding t1 s1 using tracked_flat [OF flat rd] by auto
  from remove_loop_flat [OF f1 d1 sub] rl
  have f2: "flat_store (store c)"
    and s2: "files (store c) = files (store c1) |` (- set (existingFiles c1))"
    by auto
  have "files (store c) = map_of (rev (produced list (selector a) (namespaces a)))"
  proof
    fix p
    show "files (store c) p = map_of (rev (produced list (selector a) (namespaces a))) p"
    proof (cases "p \<in> fst ` set (produced list (selector a) (namespaces a))")
      case True
      then have "map_of (rev (produced list (selector a) (namespaces a))) p \<noteq> None"
        by (simp add: map_of_eq_None_iff)
      with True show ?thesis
        unfolding s2 s1 t1 names_eq by (auto simp: restrict_map_def map_add_def split: option.splits)
    next
      case False
      then have n: "map_of (rev (produced list (selector a) (namespaces a))) p = None"
        by (simp add: map_of_eq_None_iff)
      show ?thesis
      proof (cases "files s p")
        case None
        with n show ?thesis
          unfolding s2 s1 by (simp add: restrict_map_def map_add_def)
      next
        case (Some b)
        then have "p \<in> set (track_files fis [])"
          using tracked_flat [OF flat rd] by auto
        with False have "p \<in> set (existingFiles c1)"
          unfolding t1 names_eq by simp
        with n show ?thesis
          unfolding s2 by (simp add: restrict_map_def)
      qed
    qed
  qed
  with f2 show ?thesis by simp
qed

lemma tree_correct_in_default_dir:
  assumes "outputDir a = ''.''" and "fs a = Some MemMapFs" and "flat_store s"
    and "lister a = Some list"
    and "\<forall>e \<in> set (listed_entries list (selector a) (namespaces a)).
           CHR ''/'' \<notin> set (file_name (fst e) (fst (snd e)))"
    and "out_ret (Once h a s) = Returned None"
  shows "flat_store (out_store (Once h a s))"
    and "files (out_store (Once h a s)) = map_of (rev (produced list (selector a) (namespaces a)))"
proof -
  from Once_nil_synchronised [OF assms(2) assms(6)]
  obtain c where s: "synchronise a MemMapFs s = (c, None)" and o: "out_store (Once h a s) = store c"
    by blast
  from synchronise_flat [OF assms(1) assms(3) assms(4) assms(5) s] o
  show "flat_store (out_store (Once h a s))"
    and "files (out_store (Once h a s)) = map_of (rev (produced list (selector a) (namespaces a)))"
    by simp_all
qed

text \<open>
  Idempotence in the default directory. Where no file name is produced twice, a second cycle
  over the tree that the first one left reads every file, finds its value, and issues no
  write, no removal and no request.
\<close>

lemma entries_loop_unchanged:
  assumes "\<forall>e \<in> set es. name_ok (file_name (fst e) (fst (snd e)))"
    and "distinct (map (\<lambda>e. file_name (fst e) (fst (snd e))) es)"
    and "\<forall>e \<in> set es. files (store c) (file_name (fst e) (fst (snd e))) = Some (snd (snd e))"
    and "(\<lambda>e. file_name (fst e) (fst (snd e))) ` set es \<subseteq> set (existingFiles c)"
  shows "entries_loop MemMapFs (Some lg) ''.'' es c =
           (c\<lparr>existingFiles := filter (\<lambda>p. p \<notin> (\<lambda>e. file_name (fst e) (fst (snd e))) ` set es)
                 (existingFiles c)\<rparr>, None)"
  using assms
proof (induction es arbitrary: c)
  case Nil
  show ?case by simp
next
  case (Cons e es)
  obtain item key v where e: "e = (item, key, v)" by (cases e)
  let ?p = "file_name item key"
  let ?start = "c\<lparr>existingFiles := removeAll ?p (existingFiles c)\<rparr>"
  from Cons.prems(1) e have ok: "name_ok ?p" by simp
  have j: "filepath_Join [''.'', Namespace (ObjectMeta item) @ ''_'' @ Name (ObjectMeta item) @ ''_'' @ key] = ?p"
    using Join_name [OF ok] by (simp add: file_name_def)
  from Cons.prems(3) e have "files (store c) ?p = Some v" by simp
  then have m: "map_of (store c) ?p = Some (File v)"
    by (auto simp: files_def split: option.splits node.splits)
  from Cons.prems(4) e have t: "?p \<in> set (existingFiles c)" by simp
  have d: "data_entry MemMapFs (Some lg) ''.'' item (key, v) c = (?start, None)"
    using j t m ok by (simp add: data_entry_def Let_def ReadFile_flat)
  from Cons.prems(2) e have np: "?p \<notin> (\<lambda>e. file_name (fst e) (fst (snd e))) ` set es"
    by auto
  have "entries_loop MemMapFs (Some lg) ''.'' es ?start =
      (?start\<lparr>existingFiles := filter (\<lambda>p. p \<notin> (\<lambda>e. file_name (fst e) (fst (snd e))) ` set es)
            (existingFiles ?start)\<rparr>, None)"
  proof (rule Cons.IH)
    from Cons.prems(1) show "\<forall>e \<in> set es. name_ok (file_name (fst e) (fst (snd e)))" by simp
    from Cons.prems(2) show "distinct (map (\<lambda>e. file_name (fst e) (fst (snd e))) es)" by simp
    from Cons.prems(3) show "\<forall>e \<in> set es. files (store ?start) (file_name (fst e) (fst (snd e))) = Some (snd (snd e))"
      by simp
    show "(\<lambda>e. file_name (fst e) (fst (snd e))) ` set es \<subseteq> set (existingFiles ?start)"
    proof
      fix x assume x: "x \<in> (\<lambda>e. file_name (fst e) (fst (snd e))) ` set es"
      from np x have "x \<noteq> ?p" by metis
      moreover from Cons.prems(4) x have "x \<in> set (existingFiles c)" by auto
      ultimately show "x \<in> set (existingFiles ?start)" by simp
    qed
  qed
  moreover have "filter (\<lambda>p. p \<notin> (\<lambda>e. file_name (fst e) (fst (snd e))) ` set es) (removeAll ?p (existingFiles c)) =
      filter (\<lambda>p. p \<notin> (\<lambda>e. file_name (fst e) (fst (snd e))) ` set (e # es)) (existingFiles c)"
    unfolding e by (auto simp: removeAll_filter_not_eq intro!: filter_cong)
  ultimately show ?case using d e by simp
qed

lemma Once_nothing_to_do:
  assumes "fs a = Some f"
    and "synchronise a f s = (\<lparr>store = s, existingFiles = [], changed = False, fs_calls = []\<rparr>, None)"
  shows "Once h a s =
           \<lparr>out_store = s, out_changed = False, out_fs_calls = [], out_requests = [],
            out_ret = Returned None\<rparr>"
  using assms by (simp add: Once_def notify_def leave_def)

lemma idempotent_in_default_dir:
  assumes dir: "outputDir a = ''.''" and fs: "fs a = Some MemMapFs" and flat: "flat_store s"
    and l: "lister a = Some list" and lg: "logger a = Some lg"
    and names: "\<forall>e \<in> set (listed_entries list (selector a) (namespaces a)).
           CHR ''/'' \<notin> set (file_name (fst e) (fst (snd e)))"
    and once: "distinct (map fst (produced list (selector a) (namespaces a)))"
    and first: "out_ret (Once h a s) = Returned None"
  shows "Once h' a (out_store (Once h a s)) =
           \<lparr>out_store = out_store (Once h a s), out_changed = False, out_fs_calls = [],
            out_requests = [], out_ret = Returned None\<rparr>"
proof -
  let ?s = "out_store (Once h a s)"
  let ?es = "listed_entries list (selector a) (namespaces a)"
  let ?name = "\<lambda>e. file_name (fst e) (fst (snd e))"
  let ?init = "\<lparr>store = ?s, existingFiles = [], changed = False, fs_calls = []\<rparr>"
  from Once_nil_synchronised [OF fs first]
  obtain c where s: "synchronise a MemMapFs s = (c, None)" by blast
  from s dir obtain fis0 c1 where
    "namespaces_loop a MemMapFs (namespaces a)
       (\<lparr>store = s, existingFiles = [], changed = False, fs_calls = []\<rparr>\<lparr>existingFiles := track_files fis0 []\<rparr>) = (c1, None)"
    by (auto simp: synchronise_def Let_def split: sum.splits prod.splits option.splits)
  from namespaces_loop_queries [OF this l]
  have q: "\<forall>n \<in> set (namespaces a). \<exists>items. list n (selector a) = Inr items" .
  from tree_correct_in_default_dir [OF dir fs flat l names first]
  have flat': "flat_store ?s"
    and files': "files ?s = map_of (rev (produced list (selector a) (namespaces a)))"
    by simp_all
  from ReadDir_flat [OF flat'] obtain fis where rd: "afero_ReadDir MemMapFs ?s ''.'' = Inr fis"
    by blast
  let ?start = "?init\<lparr>existingFiles := track_files fis []\<rparr>"
  have tracked: "set (track_files fis []) = fst ` set (produced list (selector a) (namespaces a))"
    using tracked_flat [OF flat' rd] unfolding files' by (simp add: dom_map_of_conv_image_fst)
  have names_eq: "?name ` set ?es = fst ` set (produced list (selector a) (namespaces a))"
    by (force simp: produced_def)
  have pm: "map fst (produced list (selector a) (namespaces a)) = map ?name ?es"
    by (simp add: produced_def)
  have ok: "\<forall>e \<in> set ?es. name_ok (?name e)"
    using names by (auto intro: file_name_ok)
  have d: "distinct (map ?name ?es)"
    using once unfolding pm .
  have vals: "\<forall>e \<in> set ?es. files (store ?start) (?name e) = Some (snd (snd e))"
  proof
    fix e assume "e \<in> set ?es"
    then have "(?name e, snd (snd e)) \<in> set (rev (produced list (selector a) (namespaces a)))"
      by (force simp: produced_def)
    moreover from once have "distinct (map fst (rev (produced list (selector a) (namespaces a))))"
      by (simp add: rev_map [symmetric])
    ultimately show "files (store ?start) (?name e) = Some (snd (snd e))"
      unfolding files' [symmetric] using files' by (simp add: map_of_is_SomeI)
  qed
  have sub: "?name ` set ?es \<subseteq> set (existingFiles ?start)"
    using tracked names_eq by simp
  from entries_loop_unchanged [OF ok d vals sub, of lg]
  have el: "entries_loop MemMapFs (Some lg) ''.'' ?es ?start =
      (?start\<lparr>existingFiles := filter (\<lambda>p. p \<notin> ?name ` set ?es) (existingFiles ?start)\<rparr>, None)" .
  have none: "filter (\<lambda>p. p \<notin> ?name ` set ?es) (track_files fis []) = []"
    using tracked names_eq by (auto simp: filter_empty_conv)
  have none': "filter (\<lambda>p. p \<notin> ?name ` set ?es) (existingFiles ?start) = []"
    using none by simp
  have el': "entries_loop MemMapFs (Some lg) ''.'' ?es ?start = (?init, None)"
    unfolding el none' by simp
  have "namespaces_loop a MemMapFs (namespaces a) ?start =
      entries_loop MemMapFs (logger a) (outputDir a) ?es ?start"
    by (rule namespaces_loop_entries [OF l q])
  also have "\<dots> = (?init, None)"
    unfolding dir lg by (rule el')
  finally have nl: "namespaces_loop a MemMapFs (namespaces a) ?start = (?init, None)" .
  have "synchronise a MemMapFs ?s =
      (case namespaces_loop a MemMapFs (namespaces a) ?start of
         (c1, Some r) \<Rightarrow> (c1, Some r)
       | (c1, None) \<Rightarrow> remove_loop MemMapFs (existingFiles c1) c1)"
    by (simp add: synchronise_def dir rd)
  also have "\<dots> = (?init, None)"
    unfolding nl by simp
  finally have sy: "synchronise a MemMapFs ?s = (?init, None)" .
  show ?thesis
    by (rule Once_nothing_to_do [OF fs sy])
qed

text \<open>
  The scenario of the specification, in the default directory: the first run writes exactly
  the four files and sends one request; the second run issues no write, no removal and no
  request, and leaves the store as it is.
\<close>

lemma scenario_first_run:
  "Once (sink 200) (configured [''''] mockLister ''.'' ''http://hook'') [(''.'', Dir)] =
     \<lparr>out_store = [(''.'', Dir), (''default_item1_foo.txt'', File ''1234567890''),
                   (''default_item1_bar.txt'', File ''0987654321''),
                   (''default_item2_baz.txt'', File ''qwertyuiop''),
                   (''default_item2_abc.txt'', File ''asdfghjkl'')],
      out_changed = True,
      out_fs_calls = [WriteFile ''default_item1_foo.txt'' ''1234567890'',
                      WriteFile ''default_item1_bar.txt'' ''0987654321'',
                      WriteFile ''default_item2_baz.txt'' ''qwertyuiop'',
                      WriteFile ''default_item2_abc.txt'' ''asdfghjkl''],
      out_requests = [\<lparr>req_Method = ''POST'', req_URL = ''http://hook'', req_Body = None\<rparr>],
      out_ret = Returned None\<rparr>"
  by code_simp

lemma scenario_second_run:
  "Once (sink 200) (configured [''''] mockLister ''.'' ''http://hook'')
     (out_store (Once (sink 200) (configured [''''] mockLister ''.'' ''http://hook'') [(''.'', Dir)])) =
     \<lparr>out_store = [(''.'', Dir), (''default_item1_foo.txt'', File ''1234567890''),
                   (''default_item1_bar.txt'', File ''0987654321''),
                   (''default_item2_baz.txt'', File ''qwertyuiop''),
                   (''default_item2_abc.txt'', File ''asdfghjkl'')],
      out_changed = False, out_fs_calls = [], out_requests = [], out_ret = Returned None\<rparr>"
  by code_simp

text \<open>
  Claim C1 fails on the code for an output directory other than the default (in the default
  directory, \<open>idempotent_in_default_dir\<close> holds). The first run writes the four files
  into \<open>/tmp\<close>. The second run finds their base names in the directory, looks the joined
  paths up among them, finds none, writes all four again and then removes the base names,
  which are no files of the store.
\<close>

theorem second_run_in_output_dir_changes:
  "out_ret (Once (sink 200) (configured [''''] mockLister ''/tmp'' '''') [(''/'', Dir), (''/tmp'', Dir)]) = Returned None \<and>
   out_changed (Once (sink 200) (configured [''''] mockLister ''/tmp'' '''')
     (out_store (Once (sink 200) (configured [''''] mockLister ''/tmp'' '''') [(''/'', Dir), (''/tmp'', Dir)]))) \<and>
   out_fs_calls (Once (sink 200) (configured [''''] mockLister ''/tmp'' '''')
     (out_store (Once (sink 200) (configured [''''] mockLister ''/tmp'' '''') [(''/'', Dir), (''/tmp'', Dir)]))) =
     [WriteFile ''/tmp/default_item1_foo.txt'' ''1234567890'', WriteFile ''/tmp/default_item1_bar.txt'' ''0987654321'',
      WriteFile ''/tmp/default_item2_baz.txt'' ''qwertyuiop'', WriteFile ''/tmp/default_item2_abc.txt'' ''asdfghjkl'',
      Remove ''default_item2_baz.txt''] \<and>
   out_ret (Once (sink 200) (configured [''''] mockLister ''/tmp'' '''')
     (out_store (Once (sink 200) (configured [''''] mockLister ''/tmp'' '''') [(''/'', Dir), (''/tmp'', Dir)]))) =
     Returned (Some (WithMessage (ErrorString ''file does not exist'') ''failed to remove file default_item2_baz.txt''))"
  by code_simp

text \<open>
  The default directory has a failing input of its own: where two partitions list the same
  collections, every file name is produced twice; its second occurrence is no longer tracked
  and is written again, in every run, with the same bytes.
\<close>

lemma repeated_collection_changes_every_run:
  "out_ret (Once (sink 200) (configured ['''', ''default''] mockLister ''.'' '''') [(''.'', Dir)]) = Returned None \<and>
   out_changed (Once (sink 200) (configured ['''', ''default''] mockLister ''.'' '''')
     (out_store (Once (sink 200) (configured ['''', ''default''] mockLister ''.'' '''') [(''.'', Dir)]))) \<and>
   out_store (Once (sink 200) (configured ['''', ''default''] mockLister ''.'' '''')
     (out_store (Once (sink 200) (configured ['''', ''default''] mockLister ''.'' '''') [(''.'', Dir)]))) =
     out_store (Once (sink 200) (configured ['''', ''default''] mockLister ''.'' '''') [(''.'', Dir)])"
  by code_simp

text \<open>
  Claim C2 fails on the code for an output directory other than the default (in the default
  directory, \<open>tree_correct_in_default_dir\<close> holds). The stale file \<open>/tmp/stale.txt\<close> is
  tracked as \<open>stale.txt\<close> and removed by that name: the cycle succeeds, the file of that
  name in the working directory is gone, and the stale file of the output directory is still
  there.
\<close>

theorem stale_file_in_output_dir_survives:
  "out_ret (Once (sink 200) (configured [''''] mockLister ''/tmp'' '''')
     [(''/'', Dir), (''/tmp'', Dir), (''/tmp/stale.txt'', File ''old''), (''.'', Dir), (''stale.txt'', File ''keep'')]) =
     Returned None \<and>
   out_store (Once (sink 200) (configured [''''] mockLister ''/tmp'' '''')
     [(''/'', Dir), (''/tmp'', Dir), (''/tmp/stale.txt'', File ''old''), (''.'', Dir), (''stale.txt'', File ''keep'')]) =
     [(''/'', Dir), (''/tmp'', Dir), (''/tmp/stale.txt'', File ''old''), (''.'', Dir),
      (''/tmp/default_item1_foo.txt'', File ''1234567890''), (''/tmp/default_item1_bar.txt'', File ''0987654321''),
      (''/tmp/default_item2_baz.txt'', File ''qwertyuiop''), (''/tmp/default_item2_abc.txt'', File ''asdfghjkl'')]"
  by code_simp

end
